theory Spec2Isabelle
  imports Main "HOL-Library.Word" "HOL-Library.AList" "HOL-Library.Product_Lexorder"
begin

section \<open>Errors\<close>

text \<open>
  Every exception the modelled Python code can raise is a value of this type; a function
  that can raise returns \<open>error + 'a\<close> with \<open>Inl\<close> for the exception.
\<close>

datatype error = ValueError | IndexError | KeyError | StructError | AttributeError | OSError

section \<open>Raster history store (c3nav/mapdata/utils/cache/maphistory.py)\<close>

subsection \<open>The grid of the base class\<close>

text \<open>
  \<open>MapHistory\<close> extends \<open>LevelGeometryIndexed\<close>, whose source is not part of the
  repository slice. The grid is therefore modelled from the spec (section 3, RasterHistoryGrid):
  a 2D array over a bounding box at a fixed resolution, each cell holding an index into the
  ordered \<open>updates\<close> list. An update is the tuple \<open>(id, timestamp)\<close> that
  \<open>_read_metadata\<close> builds; a cell is addressed by its column and row in cell units;
  \<open>bounds\<close> is \<open>(minx, miny, maxx, maxy)\<close> in cell units, upper bounds
  exclusive. The array \<open>data\<close> has \<open>dtype = np.uint16\<close>, so a cell is a 16-bit
  word. It is a function of the absolute cell position, and only the cells inside
  \<open>bounds\<close> belong to the array.
\<close>

type_synonym update = "int \<times> int"
type_synonym cell = "int \<times> int"
type_synonym bounds = "int \<times> int \<times> int \<times> int"
type_synonym grid = "cell \<Rightarrow> 16 word"

record map_history =
  resolution :: int
  bounds :: bounds
  data :: grid
  updates :: "update list"

fun in_bounds :: "bounds \<Rightarrow> cell \<Rightarrow> bool" where
  "in_bounds (minx, miny, maxx, maxy) (cx, cy) =
     (minx \<le> cx \<and> cx < maxx \<and> miny \<le> cy \<and> cy < maxy)"

text \<open>The cells of the array in row-major order (row after row, as the array is stored).\<close>

fun cells_of :: "bounds \<Rightarrow> cell list" where
  "cells_of (minx, miny, maxx, maxy) =
     concat (map (\<lambda>cy. map (\<lambda>cx. (cx, cy)) [minx..maxx - 1]) [miny..maxy - 1])"

text \<open>
  The numpy operations the source applies to \<open>self.data\<close>:
  \<open>data == i\<close> (a boolean mask), \<open>mask.any()\<close>, and \<open>data[mask] = v\<close>.
  An assignment of a Python integer to a \<open>uint16\<close> cell keeps its low 16 bits
  (\<open>of_nat\<close>).
\<close>

definition array_eq :: "grid \<Rightarrow> nat \<Rightarrow> cell \<Rightarrow> bool" where
  "array_eq d i = (\<lambda>c. unat (d c) = i)"

definition array_any :: "bounds \<Rightarrow> (cell \<Rightarrow> bool) \<Rightarrow> bool" where
  "array_any b msk = list_ex msk (cells_of b)"

definition array_assign :: "bounds \<Rightarrow> (cell \<Rightarrow> bool) \<Rightarrow> 16 word \<Rightarrow> grid \<Rightarrow> grid" where
  "array_assign b msk v d = (\<lambda>c. if in_bounds b c \<and> msk c then v else d c)"

subsection \<open>simplify\<close>

text \<open>
  \<^verbatim>\<open>
  def simplify(self):
      # remove updates that have no longer any array cells
      new_updates = ((i, update, (self.data == i)) for i, update in enumerate(self.updates))
      new_updates, new_affected = zip(*((update, affected) for i, update, affected in new_updates
                                        if i == 0 or affected.any()))
      self.updates = list(new_updates)
      for i, affected in enumerate(new_affected):
          self.data[affected] = i
  \<close>
  \<open>zip(*...)\<close> consumes the generator before the loop starts, so every mask
  \<open>affected\<close> is taken from the array as it was on entry. With an empty update list
  the generator is empty and the unpacking of \<open>zip()\<close> raises \<open>ValueError\<close>.
\<close>

definition simplify :: "map_history \<Rightarrow> error + map_history" where
  "simplify s =
     (let new_updates = map (\<lambda>(i, update). (i, update, array_eq (data s) i))
                            (enumerate 0 (updates s));
          kept = filter (\<lambda>(i, update, affected). i = 0 \<or> array_any (bounds s) affected)
                        new_updates
      in if kept = [] then Inl ValueError
         else Inr (s\<lparr>updates := map (\<lambda>(i, update, affected). update) kept,
                     data := fold (\<lambda>(i, (_, _, affected)) d.
                                      array_assign (bounds s) affected (of_nat i) d)
                                  (enumerate 0 kept) (data s)\<rparr>))"

text \<open>
  The indices that \<open>simplify\<close> keeps, in ascending order: index 0 and every index that
  some cell of the array holds. (An auxiliary notion, used to state what \<open>simplify\<close>
  computes.)
\<close>

definition kept_idx :: "map_history \<Rightarrow> nat list" where
  "kept_idx s = filter (\<lambda>i. i = 0 \<or> array_any (bounds s) (array_eq (data s) i))
                       [0..<length (updates s)]"

subsection \<open>Growing the grid, writing and reading cells\<close>

text \<open>
  Modelled from the spec: \<open>fit_bounds\<close> of the base class \<open>LevelGeometryIndexed\<close>,
  which is not in the sources. Spec, section 3: the grid may grow its bounds, padding new
  cells with index 0, without disturbing existing cell values; section 4.1: both grids are
  expanded to their combined bounding rectangle, existing cells preserved. A grid without
  cells contributes nothing to the combined rectangle.
\<close>

fun has_cells :: "bounds \<Rightarrow> bool" where
  "has_cells (minx, miny, maxx, maxy) = (minx < maxx \<and> miny < maxy)"

fun combined_bounds :: "bounds \<Rightarrow> bounds \<Rightarrow> bounds" where
  "combined_bounds (minx, miny, maxx, maxy) (minx', miny', maxx', maxy') =
     (min minx minx', min miny miny', max maxx maxx', max maxy maxy')"

definition fit_bounds :: "bounds \<Rightarrow> map_history \<Rightarrow> map_history" where
  "fit_bounds b s =
     s\<lparr>bounds := (if has_cells (bounds s) then combined_bounds (bounds s) b else b),
       data := (\<lambda>c. if in_bounds (bounds s) c then data s c else 0)\<rparr>"

text \<open>
  Modelled from the spec: the rasterisation of a geometry, done by the base class with the
  geometry library. Spec, section 4.1: \<open>addGeometry\<close> rasterizes the geometry and sets
  every touched cell. The rasterizer is a parameter \<open>rz\<close>: for a resolution and a
  geometry it lists the cells the geometry touches. \<open>cells_hull\<close> is the bounding
  rectangle of a non-empty list of cells, \<open>get_geometry_cells\<close> the mask of the touched
  cells of the grid, and \<open>set_geometry\<close> the assignment \<open>self[geometry] = v\<close>, which
  grows the grid to the geometry first.
\<close>

type_synonym 'g rasterizer = "int \<Rightarrow> 'g \<Rightarrow> cell list"

definition cells_hull :: "cell list \<Rightarrow> bounds" where
  "cells_hull cs = (Min (set (map fst cs)), Min (set (map snd cs)),
                    Max (set (map fst cs)) + 1, Max (set (map snd cs)) + 1)"

definition get_geometry_cells :: "'g rasterizer \<Rightarrow> map_history \<Rightarrow> 'g \<Rightarrow> cell \<Rightarrow> bool" where
  "get_geometry_cells rz s g = (\<lambda>c. in_bounds (bounds s) c \<and> c \<in> set (rz (resolution s) g))"

definition set_geometry :: "'g rasterizer \<Rightarrow> 'g \<Rightarrow> 16 word \<Rightarrow> map_history \<Rightarrow> map_history" where
  "set_geometry rz g v s =
     (let cs = rz (resolution s) g
      in if cs = [] then s
         else let s1 = fit_bounds (cells_hull cs) s
              in s1\<lparr>data := array_assign (bounds s1) (get_geometry_cells rz s1 g) v (data s1)\<rparr>)"

text \<open>
  Modelled from the spec: the slice read \<open>self[minx:maxx, miny:maxy]\<close> of the base class.
  Spec, section 4.1 (\<open>lastUpdate\<close>): the cells in the rectangle. The rectangle is given in
  map units; the cell \<open>(cx, cy)\<close> of a grid of resolution \<open>res\<close> is the square from
  \<open>(cx * res, cy * res)\<close> to \<open>((cx + 1) * res, (cy + 1) * res)\<close>, and it is in the
  rectangle when the two overlap. Coordinates are integers in the model.
\<close>

fun cell_in_rect :: "int \<Rightarrow> int \<Rightarrow> int \<Rightarrow> int \<Rightarrow> int \<Rightarrow> cell \<Rightarrow> bool" where
  "cell_in_rect res minx miny maxx maxy (cx, cy) =
     (cx * res < maxx \<and> minx < (cx + 1) * res \<and> cy * res < maxy \<and> miny < (cy + 1) * res)"

definition get_rect :: "map_history \<Rightarrow> int \<Rightarrow> int \<Rightarrow> int \<Rightarrow> int \<Rightarrow> 16 word list" where
  "get_rect s minx miny maxx maxy =
     map (data s) (filter (cell_in_rect (resolution s) minx miny maxx maxy) (cells_of (bounds s)))"

subsection \<open>add_geometry and last_update\<close>

text \<open>
  \<^verbatim>\<open>
  def add_geometry(self, geometry, update):
      if self.updates[-1] != update:
          self.updates.append(update)

      self[geometry] = len(self.updates) - 1
  \<close>
  \<open>self.updates[-1]\<close> raises \<open>IndexError\<close> on an empty list.
\<close>

definition add_geometry ::
  "'g rasterizer \<Rightarrow> 'g \<Rightarrow> update \<Rightarrow> map_history \<Rightarrow> error + map_history" where
  "add_geometry rz geometry upd s =
     (if updates s = [] then Inl IndexError
      else let s1 = (if last (updates s) \<noteq> upd then s\<lparr>updates := updates s @ [upd]\<rparr> else s)
           in Inr (set_geometry rz geometry (of_nat (length (updates s1) - 1)) s1))"

text \<open>
  \<^verbatim>\<open>
  def last_update(self, minx, miny, maxx, maxy):
      cells = self[minx:maxx, miny:maxy]
      if cells.size:
          return self.updates[cells.max()]
      return self.updates[0]
  \<close>
\<close>

definition nth_or_raise :: "'a list \<Rightarrow> nat \<Rightarrow> error + 'a" where
  "nth_or_raise xs i = (if i < length xs then Inr (xs ! i) else Inl IndexError)"

definition last_update :: "map_history \<Rightarrow> int \<Rightarrow> int \<Rightarrow> int \<Rightarrow> int \<Rightarrow> error + update" where
  "last_update s minx miny maxx maxy =
     (let cells = get_rect s minx miny maxx maxy
      in if cells \<noteq> [] then nth_or_raise (updates s) (unat (Max (set cells)))
         else nth_or_raise (updates s) 0)"

subsection \<open>composite\<close>

text \<open>
  \<^verbatim>\<open>
  def composite(self, other, mask_geometry):
      if self.resolution != other.resolution:
          raise ValueError('Cannot composite with different resolutions.')

      self.fit_bounds(*other.bounds)
      other.fit_bounds(*self.bounds)

      # merge update lists
      self_update_i = {update: i for i, update in enumerate(self.updates)}
      other_update_i = {update: i for i, update in enumerate(other.updates)}
      new_updates = sorted(set(self_update_i.keys()) | set(other_update_i.keys()))

      # reindex according to merged update list
      self_data = self.data.copy()
      other_data = other.data.copy()
      for i, update in enumerate(new_updates):
          if update in self_update_i:
              self.data[self_data == self_update_i[update]] = i
          if update in other_update_i:
              other_data[other_data == other_update_i[update]] = i

      # calculate maximum
      maximum = np.maximum(self.data, other_data)

      # add with mask
      if mask_geometry is not None:
          mask = self.get_geometry_cells(mask_geometry)
          self.data[mask] = maximum[mask]
      else:
          self.data = maximum

      # write new updates
      self.updates = new_updates
      self.simplify()
  \<close>
  The call mutates both \<open>self\<close> and \<open>other\<close>, so the model returns the exception
  raised (if any) together with the state of both objects when the call ends. In the
  reindexing loop the mask for \<open>self.data\<close> is taken from the untouched copy
  \<open>self_data\<close>, while the mask for \<open>other_data\<close> is taken from \<open>other_data\<close>
  itself, as it is at that iteration; \<open>reindex_step\<close> keeps that difference. The keys of
  the two dictionaries are the elements of the two update lists, and tuples are sorted
  lexicographically.
\<close>

definition update_index :: "update list \<Rightarrow> update \<rightharpoonup> nat" where
  "update_index us = fold (\<lambda>(i, u) m. m(u \<mapsto> i)) (enumerate 0 us) Map.empty"

definition array_assign_from ::
  "bounds \<Rightarrow> (cell \<Rightarrow> bool) \<Rightarrow> grid \<Rightarrow> grid \<Rightarrow> grid" where
  "array_assign_from b msk src d = (\<lambda>c. if in_bounds b c \<and> msk c then src c else d c)"

definition reindex_step ::
  "bounds \<Rightarrow> bounds \<Rightarrow> grid \<Rightarrow> (update \<rightharpoonup> nat) \<Rightarrow> (update \<rightharpoonup> nat) \<Rightarrow>
   nat \<times> update \<Rightarrow> grid \<times> grid \<Rightarrow> grid \<times> grid" where
  "reindex_step sb ob self_data self_update_i other_update_i =
     (\<lambda>(i, u) (sd, other_data).
        ((case self_update_i u of
            None \<Rightarrow> sd
          | Some j \<Rightarrow> array_assign sb (array_eq self_data j) (of_nat i) sd),
         (case other_update_i u of
            None \<Rightarrow> other_data
          | Some j \<Rightarrow> array_assign ob (array_eq other_data j) (of_nat i) other_data)))"

definition composite ::
  "'g rasterizer \<Rightarrow> map_history \<Rightarrow> 'g option \<Rightarrow> map_history \<Rightarrow>
   error option \<times> map_history \<times> map_history" where
  "composite rz other mask_geometry self =
     (if resolution self \<noteq> resolution other then (Some ValueError, self, other)
      else
        let self1 = fit_bounds (bounds other) self;
            other1 = fit_bounds (bounds self1) other;
            self_update_i = update_index (updates self1);
            other_update_i = update_index (updates other1);
            new_updates = sorted_list_of_set (set (updates self1) \<union> set (updates other1));
            self_data = data self1;
            (sd, other_data) =
               fold (reindex_step (bounds self1) (bounds other1) self_data
                       self_update_i other_update_i)
                    (enumerate 0 new_updates) (data self1, data other1);
            maximum = (\<lambda>c. max (sd c) (other_data c));
            sd' = (case mask_geometry of
                     Some g \<Rightarrow> array_assign_from (bounds self1)
                                 (get_geometry_cells rz self1 g) maximum sd
                   | None \<Rightarrow> maximum);
            self2 = self1\<lparr>data := sd', updates := new_updates\<rparr>
        in case simplify self2 of
             Inl e \<Rightarrow> (Some e, self2, other1)
           | Inr self3 \<Rightarrow> (None, self3, other1))"

subsection \<open>Well-formed stores\<close>

text \<open>
  The invariants of the data model (spec, section 3): the store has its base update and
  every cell of the grid holds an index into the update list (\<open>valid_cells\<close>); the
  update list is sorted ascending by id, ids being unique (\<open>ascending_updates\<close>).
\<close>

definition valid_cells :: "map_history \<Rightarrow> bool" where
  "valid_cells s \<longleftrightarrow>
     updates s \<noteq> [] \<and> list_all (\<lambda>c. unat (data s c) < length (updates s)) (cells_of (bounds s))"

definition ascending_updates :: "map_history \<Rightarrow> bool" where
  "ascending_updates s \<longleftrightarrow> sorted_wrt (<) (map fst (updates s))"

subsection \<open>Example stores\<close>

text \<open>
  A store of two cells that both hold index 2: no cell refers to the base update at
  index 0, and none to index 1.
\<close>

definition history_unref :: map_history where
  "history_unref = \<lparr>resolution = 1, bounds = (0, 0, 2, 1), data = (\<lambda>c. 2),
                     updates = [(1, 10), (2, 20), (3, 30)]\<rparr>"

text \<open>
  A fresh store of two cells that hold the base update, and a rasterizer for geometries
  that are given as the list of the cells they touch.
\<close>

definition history_base :: map_history where
  "history_base = \<lparr>resolution = 1, bounds = (0, 0, 2, 1), data = (\<lambda>c. 0),
                    updates = [(1, 10)]\<rparr>"

definition cells_rasterizer :: "(cell list) rasterizer" where
  "cells_rasterizer res g = g"

text \<open>
  Two stores of equal resolution over overlapping grids: \<open>history_a\<close> covers the cells
  \<open>(0, 0)\<close> and \<open>(1, 0)\<close>, and its cell \<open>(0, 0)\<close> was last touched by the update
  \<open>(3, 30)\<close>; \<open>history_b\<close> covers \<open>(1, 0)\<close> and \<open>(2, 0)\<close>, and its cell
  \<open>(1, 0)\<close> was last touched by \<open>(2, 20)\<close>.
\<close>

definition history_a :: map_history where
  "history_a = \<lparr>resolution = 1, bounds = (0, 0, 2, 1),
                 data = (\<lambda>c. if c = (0, 0) then 1 else 0),
                 updates = [(1, 10), (3, 30)]\<rparr>"

definition history_b :: map_history where
  "history_b = \<lparr>resolution = 1, bounds = (1, 0, 3, 1),
                 data = (\<lambda>c. if c = (1, 0) then 1 else 0),
                 updates = [(1, 10), (2, 20)]\<rparr>"

text \<open>
  Two stores over the same three cells: in \<open>history_d\<close> the cell \<open>(1, 0)\<close> was last
  touched by the update \<open>(3, 30)\<close> and the cell \<open>(2, 0)\<close> by \<open>(4, 40)\<close>.
\<close>

definition history_c :: map_history where
  "history_c = \<lparr>resolution = 1, bounds = (0, 0, 3, 1),
                 data = (\<lambda>c. if c = (0, 0) then 1 else 0),
                 updates = [(1, 10), (2, 20)]\<rparr>"

definition history_d :: map_history where
  "history_d = \<lparr>resolution = 1, bounds = (0, 0, 3, 1),
                 data = (\<lambda>c. if c = (1, 0) then 1 else if c = (2, 0) then 2 else 0),
                 updates = [(1, 10), (3, 30), (4, 40)]\<rparr>"

subsection \<open>Persisting a store\<close>

text \<open>
  \<open>struct.pack\<close> with the formats \<open><H\<close> and \<open><I\<close>: an unsigned integer of 2 or 4
  bytes, little-endian; a value outside the range raises \<open>struct.error\<close>.
  \<open>struct.unpack\<close> raises when the bytes read are fewer than the format needs. The file
  after its header is a list of bytes.
\<close>

type_synonym byte = "8 word"

fun le_bytes :: "nat \<Rightarrow> nat \<Rightarrow> byte list" where
  "le_bytes 0 v = []"
| "le_bytes (Suc k) v = of_nat (v mod 256) # le_bytes k (v div 256)"

fun le_value :: "byte list \<Rightarrow> nat" where
  "le_value [] = 0"
| "le_value (b # bs) = unat b + 256 * le_value bs"

definition pack_uint :: "nat \<Rightarrow> int \<Rightarrow> error + byte list" where
  "pack_uint k v = (if 0 \<le> v \<and> v < 2 ^ (8 * k) then Inr (le_bytes k (nat v))
                    else Inl StructError)"

fun pack_all :: "nat \<Rightarrow> int list \<Rightarrow> error + byte list" where
  "pack_all k [] = Inr []"
| "pack_all k (v # vs) =
     (case pack_uint k v of
        Inl e \<Rightarrow> Inl e
      | Inr b \<Rightarrow> (case pack_all k vs of Inl e \<Rightarrow> Inl e | Inr bs \<Rightarrow> Inr (b @ bs)))"

fun unpack_all :: "nat \<Rightarrow> nat \<Rightarrow> byte list \<Rightarrow> nat list" where
  "unpack_all k 0 bs = []"
| "unpack_all k (Suc n) bs = le_value (take k bs) # unpack_all k n (drop k bs)"

definition read_bytes :: "nat \<Rightarrow> byte list \<Rightarrow> error + (byte list \<times> byte list)" where
  "read_bytes n f = (if length f < n then Inl StructError else Inr (take n f, drop n f))"

text \<open>
  \<^verbatim>\<open>
  def _write_metadata(self, f):
      f.write(struct.pack('<H', len(self.updates)))
      f.write(struct.pack('<'+'II'*len(self.updates), *chain(*self.updates)))

  @classmethod
  def _read_metadata(cls, f, kwargs):
      num_updates = struct.unpack('<H', f.read(2))[0]
      updates = struct.unpack('<'+'II'*num_updates, f.read(num_updates*8))
      updates = list(zip(updates[0::2], updates[1::2]))
      kwargs['updates'] = updates
  \<close>
  \<open>_read_metadata\<close> returns the update list and the rest of the file.
\<close>

definition chain_updates :: "update list \<Rightarrow> int list" where
  "chain_updates us = concat (map (\<lambda>(i, t). [i, t]) us)"

fun zip_pairs :: "nat list \<Rightarrow> update list" where
  "zip_pairs (a # b # rest) = (int a, int b) # zip_pairs rest"
| "zip_pairs rest = []"

definition write_metadata :: "map_history \<Rightarrow> error + byte list" where
  "write_metadata s =
     (case pack_uint 2 (int (length (updates s))) of
        Inl e \<Rightarrow> Inl e
      | Inr n \<Rightarrow> (case pack_all 4 (chain_updates (updates s)) of
                   Inl e \<Rightarrow> Inl e
                 | Inr us \<Rightarrow> Inr (n @ us)))"

definition read_metadata :: "byte list \<Rightarrow> error + (update list \<times> byte list)" where
  "read_metadata f =
     (case read_bytes 2 f of
        Inl e \<Rightarrow> Inl e
      | Inr (n, f1) \<Rightarrow>
          (let num_updates = le_value n
           in case read_bytes (num_updates * 8) f1 of
                Inl e \<Rightarrow> Inl e
              | Inr (us, f2) \<Rightarrow> Inr (zip_pairs (unpack_all 4 (2 * num_updates) us), f2)))"

text \<open>
  Modelled from the spec: \<open>write\<close> and \<open>read\<close> of the base class
  \<open>LevelGeometryIndexed\<close>, which are not in the sources. Spec, section 4.1, persisted
  layout: a header (bounds, resolution, cell width), the metadata, and the cell array in
  row-major order, a cell being 2 bytes wide. The spec gives no byte layout for the header,
  so its three fields are kept as values; the cells are written little-endian like the
  metadata. Reading takes as many cells as the bounds of the header span and fails when the
  file is too short.
\<close>

record persisted =
  hdr_bounds :: bounds
  hdr_resolution :: int
  hdr_cell_width :: nat
  body :: "byte list"

definition write_indexed :: "map_history \<Rightarrow> error + persisted" where
  "write_indexed s =
     (case write_metadata s of
        Inl e \<Rightarrow> Inl e
      | Inr md \<Rightarrow>
          Inr \<lparr>hdr_bounds = bounds s, hdr_resolution = resolution s, hdr_cell_width = 2,
               body = md @ concat (map (\<lambda>c. le_bytes 2 (unat (data s c)))
                                       (cells_of (bounds s)))\<rparr>)"

definition read_indexed :: "persisted \<Rightarrow> error + map_history" where
  "read_indexed f =
     (case read_metadata (body f) of
        Inl e \<Rightarrow> Inl e
      | Inr (us, rest) \<Rightarrow>
          (let cs = cells_of (hdr_bounds f); w = hdr_cell_width f
           in if length rest < w * length cs then Inl ValueError
              else let vals = map of_nat (unpack_all w (length cs) rest)
                   in Inr \<lparr>resolution = hdr_resolution f, bounds = hdr_bounds f,
                           data = (\<lambda>c. case map_of (zip cs vals) c of
                                          Some v \<Rightarrow> v | None \<Rightarrow> 0),
                           updates = us\<rparr>))"

text \<open>
  \<^verbatim>\<open>
  def write(self, *args, **kwargs):
      self.simplify()
      super().write(*args, **kwargs)
  \<close>
  The call compacts the store in place before it writes it: the model returns the store as
  the call leaves it together with the file.
\<close>

definition write_history :: "map_history \<Rightarrow> error + (map_history \<times> persisted)" where
  "write_history s =
     (case simplify s of
        Inl e \<Rightarrow> Inl e
      | Inr s1 \<Rightarrow> (case write_indexed s1 of Inl e \<Rightarrow> Inl e | Inr f \<Rightarrow> Inr (s1, f)))"

text \<open>The cell array of a store: the values of its cells in row-major order.\<close>

definition cell_array :: "map_history \<Rightarrow> 16 word list" where
  "cell_array s = map (data s) (cells_of (bounds s))"

section \<open>Level geometry compositor (c3nav/mapdata/render/data/levelrender.py)\<close>

subsection \<open>Geometry and croppers\<close>

text \<open>
  The geometry library is outside the repository. A geometry is modelled by the set of
  points it covers: \<open>intersection\<close> is the intersection of sets, \<open>intersects\<close> says
  that it is not empty, \<open>is_empty\<close> is emptiness, \<open>unary_union\<close> the union, and the
  empty geometry collection is the empty set.
  \<^verbatim>\<open>
  class Cropper:
      def __init__(self, geometry=None):
          self.geometry = geometry
          self.geometry_prep = None if geometry is None else prepared.prep(geometry)

      def intersection(self, other):
          if self.geometry is None:
              return other
          if self.geometry_prep.intersects(other):
              return self.geometry.intersection(other)
          return empty_geometry_collection
  \<close>
\<close>

type_synonym 'p geometry = "'p set"

datatype 'p cropper = Cropper (geometry: "'p geometry option")

fun intersection :: "'p cropper \<Rightarrow> 'p geometry \<Rightarrow> 'p geometry" where
  "intersection (Cropper None) other = other"
| "intersection (Cropper (Some g)) other = (if g \<inter> other \<noteq> {} then g \<inter> other else {})"

subsection \<open>Levels and their geometries\<close>

text \<open>
  The classes \<open>Level\<close>, \<open>LevelGeometries\<close> and \<open>AltitudeAreaGeometries\<close> are declared
  outside the sources; the records have the attributes that \<open>rebuild\<close> reads and writes.
  Altitudes and heights are only compared and copied, and are integers in the model.
  Dictionaries of geometries are association lists in insertion order. The mesh that
  \<open>build_mesh\<close> derives has an abstract type \<open>'m\<close>.
\<close>

record level =
  pk :: int
  on_top_of_id :: "int option"
  base_altitude :: int

record 'p altitude_area_geometries =
  aa_geometry :: "'p geometry"
  altitude :: int
  altitude2 :: "int option"
  point1 :: "'p option"
  point2 :: "'p option"
  colors :: "(string \<times> (int \<times> 'p geometry) list) list"
  obstacles :: "(int \<times> 'p geometry) list"

record ('p, 'm) level_geometries = level +
  holes :: "'p geometry option"
  doors :: "'p geometry"
  walls :: "'p geometry"
  all_walls :: "'p geometry"
  short_walls :: "(int \<times> 'p geometry) list"
  altitudeareas :: "'p altitude_area_geometries list"
  ramps :: "'p geometry list"
  heightareas :: "('p geometry \<times> int) list"
  affected_area :: "'p geometry"
  restricted_spaces_indoors :: "(int \<times> 'p geometry) list"
  restricted_spaces_outdoors :: "(int \<times> 'p geometry) list"
  short_label :: string
  default_height :: int
  door_height :: int
  min_altitude :: int
  mesh :: "'m option"

text \<open>
  \<open>render_data.access_restriction_affected\<close> maps a restriction to a list of areas while
  the sublevels are walked, and to their union in the end: the type \<open>'a\<close>.
\<close>

record ('p, 'm, 'a) level_render_data =
  levels :: "('p, 'm) level_geometries list"
  access_restriction_affected :: "(int \<times> 'a) list"

text \<open>
  What \<open>rebuild\<close> takes from its surroundings: \<open>LevelGeometries.build_for_level\<close>,
  \<open>get_rings\<close> (every ring as the list of its coordinates), the persisted base history of
  a level (\<open>MapHistory.open_level(pk, 'base')\<close>), the rasterizer of the history stores,
  the geometry library's \<open>buffer(1)\<close>, and \<open>build_mesh\<close>. A
  \<open>NearestNDInterpolator\<close> is modelled by the data it is built from: the coordinates with
  their altitudes.
\<close>

type_synonym 'p interpolator = "('p \<times> int) list"

record ('p, 'm) rebuild_params =
  build_for_level :: "level \<Rightarrow> 'p altitude_area_geometries list \<Rightarrow> ('p, 'm) level_geometries"
  get_rings :: "'p geometry \<Rightarrow> 'p list list"
  open_level_base :: "int \<Rightarrow> map_history"
  rasterize :: "('p geometry) rasterizer"
  buffer1 :: "'p geometry \<Rightarrow> 'p geometry"
  build_mesh :: "'p interpolator option \<Rightarrow> ('p, 'm) level_geometries \<Rightarrow> 'm option"

subsection \<open>The first loop: the geometries and the interpolators of every level\<close>

text \<open>
  \<^verbatim>\<open>
  single_level_geoms = {}
  interpolators = {}
  last_interpolator = None
  altitudeareas_above = []
  for level in reversed(levels):
      single_level_geoms[level.pk] = LevelGeometries.build_for_level(level, altitudeareas_above)

      if level.on_top_of_id is not None:
          altitudeareas_above.extend(single_level_geoms[level.pk].altitudeareas)
          altitudeareas_above.sort(key=operator.attrgetter('altitude'))
          continue

      if last_interpolator is not None:
          interpolators[level.pk] = last_interpolator

      coords = deque()
      values = deque()
      for area in single_level_geoms[level.pk].altitudeareas:
          new_coords = np.vstack(tuple(np.array(ring.coords) for ring in get_rings(area.geometry)))
          coords.append(new_coords)
          values.append(np.full((new_coords.shape[0], 1), fill_value=area.altitude))

      last_interpolator = NearestNDInterpolator(np.vstack(coords), np.vstack(values))
  \<close>
  \<open>np.vstack\<close> of no arrays raises \<open>ValueError\<close>: in the inner loop for an area
  whose geometry has no ring, and after it for a level without altitude areas.
  \<open>area_points\<close> is the inner loop, \<open>level_interpolator\<close> the interpolator of a
  primary level, \<open>first_pass\<close> the loop over the levels still to visit with the loop
  variables \<open>single_level_geoms\<close>, \<open>interpolators\<close>, \<open>last_interpolator\<close> and
  \<open>altitudeareas_above\<close>, and \<open>first_pass_env\<close> the whole loop.
\<close>

fun area_points ::
  "('p geometry \<Rightarrow> 'p list list) \<Rightarrow> 'p altitude_area_geometries list \<Rightarrow>
   error + 'p interpolator" where
  "area_points rings [] = Inr []"
| "area_points rings (area # rest) =
     (if rings (aa_geometry area) = [] then Inl ValueError
      else case area_points rings rest of
             Inl e \<Rightarrow> Inl e
           | Inr points \<Rightarrow>
               Inr (map (\<lambda>c. (c, altitude area)) (concat (rings (aa_geometry area))) @ points))"

definition level_interpolator ::
  "('p geometry \<Rightarrow> 'p list list) \<Rightarrow> 'p altitude_area_geometries list \<Rightarrow>
   error + 'p interpolator" where
  "level_interpolator rings areas =
     (case area_points rings areas of
        Inl e \<Rightarrow> Inl e
      | Inr points \<Rightarrow> if areas = [] then Inl ValueError else Inr points)"

fun first_pass ::
  "('p, 'm) rebuild_params \<Rightarrow> level list \<Rightarrow>
   (int \<rightharpoonup> ('p, 'm) level_geometries) \<times> (int \<rightharpoonup> 'p interpolator) \<times>
   'p interpolator option \<times> 'p altitude_area_geometries list \<Rightarrow>
   error + ((int \<rightharpoonup> ('p, 'm) level_geometries) \<times> (int \<rightharpoonup> 'p interpolator) \<times>
            'p interpolator option \<times> 'p altitude_area_geometries list)" where
  "first_pass P [] state = Inr state"
| "first_pass P (lvl # rest)
     (single_level_geoms, interpolators, last_interpolator, altitudeareas_above) =
     (let geoms = build_for_level P lvl altitudeareas_above;
          single_level_geoms' = single_level_geoms(pk lvl \<mapsto> geoms)
      in if on_top_of_id lvl \<noteq> None
         then first_pass P rest
                (single_level_geoms', interpolators, last_interpolator,
                 sort_key altitude (altitudeareas_above @ altitudeareas geoms))
         else (let interpolators' = (case last_interpolator of
                                       None \<Rightarrow> interpolators
                                     | Some i \<Rightarrow> interpolators(pk lvl \<mapsto> i))
               in case level_interpolator (get_rings P) (altitudeareas geoms) of
                    Inl e \<Rightarrow> Inl e
                  | Inr i \<Rightarrow>
                      first_pass P rest
                        (single_level_geoms', interpolators', Some i, altitudeareas_above)))"

text \<open>
  The two dictionaries that the first loop has filled and the second loop reads, together
  with the surroundings.
\<close>

record ('p, 'm) rebuild_env = "('p, 'm) rebuild_params" +
  single_level_geoms :: "int \<rightharpoonup> ('p, 'm) level_geometries"
  interpolators :: "int \<rightharpoonup> 'p interpolator"

definition first_pass_env ::
  "('p, 'm) rebuild_params \<Rightarrow> level list \<Rightarrow> error + ('p, 'm) rebuild_env" where
  "first_pass_env P lvls =
     (case first_pass P (rev lvls) (Map.empty, Map.empty, None, []) of
        Inl e \<Rightarrow> Inl e
      | Inr (geoms_of, interpolator_of, last_interpolator, altitudeareas_above) \<Rightarrow>
          Inr \<lparr>build_for_level = build_for_level P, get_rings = get_rings P,
               open_level_base = open_level_base P, rasterize = rasterize P,
               buffer1 = buffer1 P, build_mesh = build_mesh P,
               single_level_geoms = geoms_of, interpolators = interpolator_of\<rparr>)"

subsection \<open>Choosing the crop area of every sublevel\<close>

text \<open>
  \<^verbatim>\<open>
  sublevels = tuple(sublevel for sublevel in levels
                    if sublevel.on_top_of_id == level.pk or sublevel.base_altitude <= level.base_altitude)

  level_crop_to = {}

  # choose a crop area for each level. non-intermediate levels (not on_top_of) below the one that we are
  # currently rendering will be cropped to only render content that is visible through holes indoors in the
  # levels above them.
  crop_to = None
  primary_level_count = 0
  for sublevel in reversed(sublevels):
      geoms = single_level_geoms[sublevel.pk]

      if geoms.holes is not None:
          primary_level_count += 1

      # set crop area if we area on the second primary layer from top or below
      level_crop_to[sublevel.pk] = Cropper(crop_to if primary_level_count > 1 else None)

      if geoms.holes is not None:
          if crop_to is None:
              crop_to = geoms.holes
          else:
              crop_to = crop_to.intersection(geoms.holes)

          if crop_to.is_empty:
              break
  \<close>
  \<open>crop_walk\<close> is the loop, over the sublevels still to visit, with the loop variables
  \<open>crop_to\<close>, \<open>primary_level_count\<close> and \<open>level_crop_to\<close>; a level without
  entry in \<open>single_level_geoms\<close> raises \<open>KeyError\<close>.
\<close>

definition sublevels_of :: "level list \<Rightarrow> level \<Rightarrow> level list" where
  "sublevels_of lvls lvl =
     filter (\<lambda>sublevel. on_top_of_id sublevel = Some (pk lvl)
                        \<or> base_altitude sublevel \<le> base_altitude lvl) lvls"

fun crop_walk ::
  "(int \<rightharpoonup> ('p, 'm) level_geometries) \<Rightarrow> level list \<Rightarrow> 'p geometry option \<Rightarrow> nat \<Rightarrow>
   (int \<rightharpoonup> 'p cropper) \<Rightarrow> error + (int \<rightharpoonup> 'p cropper)" where
  "crop_walk slg [] crop_to primary_level_count level_crop_to = Inr level_crop_to"
| "crop_walk slg (sublevel # rest) crop_to primary_level_count level_crop_to =
     (case slg (pk sublevel) of
        None \<Rightarrow> Inl KeyError
      | Some geoms \<Rightarrow>
          (let primary_level_count' = (if holes geoms \<noteq> None then primary_level_count + 1
                                       else primary_level_count);
               level_crop_to' = level_crop_to
                  (pk sublevel \<mapsto> Cropper (if primary_level_count' > 1 then crop_to else None))
           in case holes geoms of
                None \<Rightarrow> crop_walk slg rest crop_to primary_level_count' level_crop_to'
              | Some h \<Rightarrow>
                  (let crop_to' = (case crop_to of None \<Rightarrow> h | Some c \<Rightarrow> c \<inter> h)
                   in if crop_to' = {} then Inr level_crop_to'
                      else crop_walk slg rest (Some crop_to') primary_level_count'
                             level_crop_to')))"

definition choose_crop ::
  "(int \<rightharpoonup> ('p, 'm) level_geometries) \<Rightarrow> level list \<Rightarrow> error + (int \<rightharpoonup> 'p cropper)" where
  "choose_crop slg sublevels = crop_walk slg (rev sublevels) None 0 Map.empty"

subsection \<open>Walking the sublevels\<close>

text \<open>
  The second loop over the sublevels of \<open>rebuild\<close> (lines 109 to 210 of the source),
  from the first sublevel of the tuple to the last:
  \<^verbatim>\<open>
  for sublevel in sublevels:
      try:
          crop_to = level_crop_to[sublevel.pk]
      except KeyError:
          break

      old_geoms = single_level_geoms[sublevel.pk]

      if crop_to.geometry is not None:
          map_history.composite(MapHistory.open_level(sublevel.pk, 'base'), crop_to.geometry)
      elif level.pk != sublevel.pk:
          map_history.composite(MapHistory.open_level(sublevel.pk, 'base'), None)

      new_geoms = LevelGeometries()
      new_geoms.doors = crop_to.intersection(old_geoms.doors)
      new_geoms.walls = crop_to.intersection(old_geoms.walls)
      new_geoms.all_walls = crop_to.intersection(old_geoms.all_walls)
      new_geoms.short_walls = tuple((altitude, geom) for altitude, geom in tuple(
          (altitude, crop_to.intersection(geom))
          for altitude, geom in old_geoms.short_walls
      ) if not geom.is_empty)

      for altitudearea in old_geoms.altitudeareas:
          new_geometry = crop_to.intersection(altitudearea.geometry)
          if new_geometry.is_empty:
              continue
          ...
          new_geoms.altitudeareas.append(new_altitudearea)

      if new_geoms.walls.is_empty and not new_geoms.altitudeareas:
          continue

      new_geoms.ramps = ...
      ...
      new_geoms.build_mesh(interpolators.get(level.pk) if sublevel.pk == level.pk else None)

      render_data.levels.append(new_geoms)
  \<close>
  \<open>crop_altitudearea\<close> is the body of the loop over the altitude areas (\<open>None\<close> when
  the area is skipped), \<open>crop_geoms\<close> the part of the body that builds \<open>new_geoms\<close>,
  \<open>composite_sublevel\<close> the two calls of \<open>composite\<close> on the running history (it
  gives the exception raised, if any, and the history after the call),
  \<open>contributes_nothing\<close> the test before \<open>continue\<close>, and \<open>render_walk\<close> the
  loop. An exception of \<open>composite\<close> ends \<open>rebuild\<close>.
\<close>

definition crop_areas :: "'p geometry \<Rightarrow> ('k \<times> 'p geometry) list \<Rightarrow> ('k \<times> 'p geometry) list" where
  "crop_areas g areas =
     map (\<lambda>(k, area). (k, g \<inter> area)) (filter (\<lambda>(k, area). g \<inter> area \<noteq> {}) areas)"

definition crop_altitudearea ::
  "'p cropper \<Rightarrow> 'p altitude_area_geometries \<Rightarrow> 'p altitude_area_geometries option" where
  "crop_altitudearea crop_to altitudearea =
     (let new_geometry = intersection crop_to (aa_geometry altitudearea)
      in if new_geometry = {} then None
         else Some \<lparr>aa_geometry = new_geometry,
                     altitude = altitude altitudearea,
                     altitude2 = altitude2 altitudearea,
                     point1 = point1 altitudearea,
                     point2 = point2 altitudearea,
                     colors = filter (\<lambda>(color, new_areas). new_areas \<noteq> [])
                                (map (\<lambda>(color, areas). (color, crop_areas new_geometry areas))
                                     (colors altitudearea)),
                     obstacles = crop_areas new_geometry (obstacles altitudearea)\<rparr>)"

definition crop_restricted ::
  "'p cropper \<Rightarrow> (int \<times> 'p geometry) list \<Rightarrow> (int \<times> 'p geometry) list" where
  "crop_restricted crop_to spaces =
     filter (\<lambda>(access_restriction, new_area). new_area \<noteq> {})
       (map (\<lambda>(access_restriction, area). (access_restriction, intersection crop_to area)) spaces)"

fun setdefault_append :: "'k \<Rightarrow> 'v \<Rightarrow> ('k \<times> 'v list) list \<Rightarrow> ('k \<times> 'v list) list" where
  "setdefault_append k v [] = [(k, [v])]"
| "setdefault_append k v ((k', vs) # rest) =
     (if k' = k then (k', vs @ [v]) # rest else (k', vs) # setdefault_append k v rest)"

definition crop_geoms ::
  "('p, 'm) rebuild_env \<Rightarrow> level \<Rightarrow> level \<Rightarrow> 'p cropper \<Rightarrow>
   ('p, 'm) level_geometries \<Rightarrow> ('p, 'm) level_geometries" where
  "crop_geoms env lvl sublevel crop_to old_geoms =
     (let new_walls = intersection crop_to (walls old_geoms);
          new_altitudeareas = List.map_filter (crop_altitudearea crop_to) (altitudeareas old_geoms);
          new_geoms = \<lparr>
            pk = pk old_geoms,
            on_top_of_id = on_top_of_id old_geoms,
            base_altitude = base_altitude old_geoms,
            holes = None,
            doors = intersection crop_to (doors old_geoms),
            walls = new_walls,
            all_walls = intersection crop_to (all_walls old_geoms),
            short_walls = filter (\<lambda>(altitude, geom). geom \<noteq> {})
                            (map (\<lambda>(altitude, geom). (altitude, intersection crop_to geom))
                                 (short_walls old_geoms)),
            altitudeareas = new_altitudeareas,
            ramps = filter (\<lambda>ramp. ramp \<noteq> {}) (map (intersection crop_to) (ramps old_geoms)),
            heightareas = filter (\<lambda>(area, height). area \<noteq> {})
                            (map (\<lambda>(area, height). (intersection crop_to area, height))
                                 (heightareas old_geoms)),
            affected_area = \<Union> (set (map aa_geometry new_altitudeareas))
                              \<union> intersection crop_to (buffer1 env new_walls),
            restricted_spaces_indoors =
              crop_restricted crop_to (restricted_spaces_indoors old_geoms),
            restricted_spaces_outdoors =
              crop_restricted crop_to (restricted_spaces_outdoors old_geoms),
            short_label = short_label old_geoms,
            default_height = default_height old_geoms,
            door_height = door_height old_geoms,
            min_altitude = (if new_altitudeareas \<noteq> []
                            then Min (set (map altitude new_altitudeareas))
                            else base_altitude old_geoms),
            mesh = None\<rparr>
      in new_geoms\<lparr>mesh := build_mesh env
            (if pk sublevel = pk lvl then interpolators env (pk lvl) else None) new_geoms\<rparr>)"

definition composite_sublevel ::
  "('p, 'm) rebuild_env \<Rightarrow> level \<Rightarrow> level \<Rightarrow> 'p cropper \<Rightarrow> map_history \<Rightarrow>
   error option \<times> map_history" where
  "composite_sublevel env lvl sublevel crop_to map_history =
     (case geometry crop_to of
        Some g \<Rightarrow>
          (let (raised, map_history', other') =
                 composite (rasterize env) (open_level_base env (pk sublevel)) (Some g) map_history
           in (raised, map_history'))
      | None \<Rightarrow>
          if pk lvl \<noteq> pk sublevel
          then (let (raised, map_history', other') =
                      composite (rasterize env) (open_level_base env (pk sublevel)) None map_history
                in (raised, map_history'))
          else (None, map_history))"

definition contributes_nothing :: "'p cropper \<Rightarrow> ('p, 'm) level_geometries \<Rightarrow> bool" where
  "contributes_nothing crop_to old_geoms \<longleftrightarrow>
     intersection crop_to (walls old_geoms) = {}
     \<and> List.map_filter (crop_altitudearea crop_to) (altitudeareas old_geoms) = []"

fun render_walk ::
  "('p, 'm) rebuild_env \<Rightarrow> level \<Rightarrow> (int \<rightharpoonup> 'p cropper) \<Rightarrow> level list \<Rightarrow>
   ('p, 'm, 'p geometry list) level_render_data \<times> map_history \<Rightarrow>
   error + (('p, 'm, 'p geometry list) level_render_data \<times> map_history)" where
  "render_walk env lvl level_crop_to [] (render_data, map_history) =
     Inr (render_data, map_history)"
| "render_walk env lvl level_crop_to (sublevel # rest) (render_data, map_history) =
     (case level_crop_to (pk sublevel) of
        None \<Rightarrow> Inr (render_data, map_history)
      | Some crop_to \<Rightarrow>
          (case single_level_geoms env (pk sublevel) of
             None \<Rightarrow> Inl KeyError
           | Some old_geoms \<Rightarrow>
               (case composite_sublevel env lvl sublevel crop_to map_history of
                  (Some e, map_history') \<Rightarrow> Inl e
                | (None, map_history') \<Rightarrow>
                    if contributes_nothing crop_to old_geoms
                    then render_walk env lvl level_crop_to rest (render_data, map_history')
                    else render_walk env lvl level_crop_to rest
                           (render_data\<lparr>
                              levels := levels render_data
                                          @ [crop_geoms env lvl sublevel crop_to old_geoms],
                              access_restriction_affected :=
                                fold (\<lambda>(access_restriction, new_area).
                                        setdefault_append access_restriction new_area)
                                     (crop_restricted crop_to
                                        (restricted_spaces_indoors old_geoms))
                                     (access_restriction_affected render_data)\<rparr>,
                            map_history'))))"

subsection \<open>The second loop: one render data and one history for every primary level\<close>

text \<open>
  \<^verbatim>\<open>
  for i, level in enumerate(levels):
      if level.on_top_of_id is not None:
          continue

      map_history = MapHistory.open_level(level.pk, 'base')
      sublevels = ...
      ...
      render_data.access_restriction_affected = {
          access_restriction: unary_union(areas)
          for access_restriction, areas in render_data.access_restriction_affected.items()
      }

      render_data.save(level.pk)

      map_history.save(MapHistory.level_filename(level.pk, 'composite'))
  \<close>
  \<open>render_level\<close> is the body of the loop for one primary level, up to the two results
  that are saved: the base history of the level is opened, the crop areas are chosen, the
  sublevels are walked with an empty \<open>render_data\<close>, and the areas of every restriction
  are united. \<open>render_levels\<close> is the loop over the levels still to visit, with the list
  of what has been saved so far (the key of the level, its render data and its composite
  history): an exception ends the loop and leaves what was saved before.
  \<open>rebuild\<close> is the whole function, the first loop and then the second.
\<close>

definition render_level ::
  "('p, 'm) rebuild_env \<Rightarrow> level list \<Rightarrow> level \<Rightarrow>
   error + (('p, 'm, 'p geometry) level_render_data \<times> map_history)" where
  "render_level env lvls lvl =
     (let map_history = open_level_base env (pk lvl);
          sublevels = sublevels_of lvls lvl
      in case choose_crop (single_level_geoms env) sublevels of
           Inl e \<Rightarrow> Inl e
         | Inr level_crop_to \<Rightarrow>
             (case render_walk env lvl level_crop_to sublevels
                     (\<lparr>levels = [], access_restriction_affected = []\<rparr>, map_history) of
                Inl e \<Rightarrow> Inl e
              | Inr (render_data, map_history') \<Rightarrow>
                  Inr (\<lparr>levels = levels render_data,
                         access_restriction_affected =
                           map (\<lambda>(access_restriction, areas).
                                  (access_restriction, \<Union> (set areas)))
                               (access_restriction_affected render_data)\<rparr>,
                       map_history')))"

fun render_levels ::
  "('p, 'm) rebuild_env \<Rightarrow> level list \<Rightarrow> level list \<Rightarrow>
   (int \<times> ('p, 'm, 'p geometry) level_render_data \<times> map_history) list \<Rightarrow>
   error option \<times> (int \<times> ('p, 'm, 'p geometry) level_render_data \<times> map_history) list" where
  "render_levels env lvls [] saved = (None, saved)"
| "render_levels env lvls (lvl # rest) saved =
     (if on_top_of_id lvl \<noteq> None then render_levels env lvls rest saved
      else case render_level env lvls lvl of
             Inl e \<Rightarrow> (Some e, saved)
           | Inr (render_data, map_history) \<Rightarrow>
               render_levels env lvls rest (saved @ [(pk lvl, render_data, map_history)]))"

definition rebuild ::
  "('p, 'm) rebuild_params \<Rightarrow> level list \<Rightarrow>
   error option \<times> (int \<times> ('p, 'm, 'p geometry) level_render_data \<times> map_history) list" where
  "rebuild P lvls =
     (case first_pass_env P lvls of
        Inl e \<Rightarrow> (Some e, [])
      | Inr env \<Rightarrow> render_levels env lvls lvls [])"

subsection \<open>Example levels\<close>

text \<open>
  Primary levels numbered from the lowest up (the number is both key and base altitude),
  and geometries over natural numbers as points. A level has holes, walls and one altitude
  area, and nothing else; the one ring of a geometry lists its points.
\<close>

definition example_level :: "int \<Rightarrow> level" where
  "example_level k = \<lparr>pk = k, on_top_of_id = None, base_altitude = k\<rparr>"

definition example_geoms ::
  "int \<Rightarrow> nat geometry \<Rightarrow> nat geometry \<Rightarrow> nat geometry \<Rightarrow> (nat, unit) level_geometries" where
  "example_geoms k h w a =
     \<lparr>pk = k, on_top_of_id = None, base_altitude = k, holes = Some h, doors = {}, walls = w,
      all_walls = w, short_walls = [],
      altitudeareas = [\<lparr>aa_geometry = a, altitude = k, altitude2 = None, point1 = None,
                        point2 = None, colors = [], obstacles = []\<rparr>],
      ramps = [], heightareas = [],
      affected_area = w \<union> a, restricted_spaces_indoors = [], restricted_spaces_outdoors = [],
      short_label = [], default_height = 3, door_height = 2, min_altitude = k, mesh = None\<rparr>"

definition example_params ::
  "(int \<Rightarrow> nat geometry) \<Rightarrow> (int \<Rightarrow> nat geometry) \<Rightarrow> (int \<Rightarrow> nat geometry) \<Rightarrow>
   (nat, unit) rebuild_params" where
  "example_params h w a =
     \<lparr>build_for_level = (\<lambda>lvl above. example_geoms (pk lvl) (h (pk lvl)) (w (pk lvl)) (a (pk lvl))),
      get_rings = (\<lambda>g. [sorted_list_of_set g]),
      open_level_base = (\<lambda>k. history_base), rasterize = (\<lambda>res g. []),
      buffer1 = (\<lambda>g. g), build_mesh = (\<lambda>i g. None)\<rparr>"

definition example_levels :: "level list" where
  "example_levels = [example_level 1, example_level 2, example_level 3]"

text \<open>
  Three primary levels, each with a wall and an altitude area in the point 2; the holes of
  the upper two overlap in the point 2.
\<close>

definition params_overlap :: "(nat, unit) rebuild_params" where
  "params_overlap =
     example_params (\<lambda>k. if k = 3 then {1, 2} else if k = 2 then {2, 3} else {4})
       (\<lambda>k. {2}) (\<lambda>k. {2})"

text \<open>The same levels; the holes of the upper two are not empty and do not overlap.\<close>

definition params_disjoint :: "(nat, unit) rebuild_params" where
  "params_disjoint =
     example_params (\<lambda>k. if k = 3 then {1} else if k = 2 then {2} else {4})
       (\<lambda>k. {2}) (\<lambda>k. {2})"

text \<open>
  Three primary levels with the same hole in the point 1; the lowest and the highest have
  a wall and an altitude area inside the hole, the middle one has no walls, and its
  altitude area lies outside the hole.
\<close>

definition params_middle_empty :: "(nat, unit) rebuild_params" where
  "params_middle_empty =
     example_params (\<lambda>k. {1}) (\<lambda>k. if k = 2 then {} else {1}) (\<lambda>k. if k = 2 then {5} else {1})"

section \<open>Spatial index (c3nav/mapdata/utils/index.py)\<close>

text \<open>
  The index sees of a geometry only whether it has parts (\<open>geometry.geoms\<close>) and, when it
  has none, its bounding box (\<open>geometry.bounds\<close>): \<open>(minx, miny, maxx, maxy)\<close> over any
  linearly ordered coordinates. Two boxes intersect when they share a point, borders
  included, which is what the R-tree library tests.
\<close>

type_synonym 'a box = "'a \<times> 'a \<times> 'a \<times> 'a"

datatype 'a shape = Simple "'a box" | Multi "'a shape list"

fun box_intersects :: "('a::linorder) box \<Rightarrow> 'a box \<Rightarrow> bool" where
  "box_intersects (minx, miny, maxx, maxy) (minx', miny', maxx', maxy') =
     (minx \<le> maxx' \<and> minx' \<le> maxx \<and> miny \<le> maxy' \<and> miny' \<le> maxy)"

subsection \<open>The fallback\<close>

text \<open>
  \<^verbatim>\<open>
  class Index:
      def __init__(self):
          self.objects = {}

      def insert(self, value, geometry):
          self.objects[value] = geometry

      def delete(self, value):
          self.objects.pop(value)

      def intersection(self, geometry):
          return self.objects.values()
  \<close>
  The dictionary is an association list in insertion order; \<open>pop\<close> of a missing key
  raises \<open>KeyError\<close>. \<open>intersection\<close> returns the values of the dictionary, which are
  the stored geometries.
\<close>

record ('v, 'a) fallback_index =
  objects :: "('v \<times> 'a shape) list"

definition fallback_empty :: "('v, 'a) fallback_index" where
  "fallback_empty = \<lparr>objects = []\<rparr>"

definition fallback_insert ::
  "'v \<Rightarrow> 'a shape \<Rightarrow> ('v, 'a) fallback_index \<Rightarrow> ('v, 'a) fallback_index" where
  "fallback_insert v geom idx = idx\<lparr>objects := AList.update v geom (objects idx)\<rparr>"

definition fallback_delete ::
  "'v \<Rightarrow> ('v, 'a) fallback_index \<Rightarrow> error + ('v, 'a) fallback_index" where
  "fallback_delete v idx =
     (case map_of (objects idx) v of
        None \<Rightarrow> Inl KeyError
      | Some g \<Rightarrow> Inr (idx\<lparr>objects := AList.delete v (objects idx)\<rparr>))"

definition fallback_intersection :: "('v, 'a) fallback_index \<Rightarrow> 'a shape \<Rightarrow> 'a shape list" where
  "fallback_intersection idx geom = map snd (objects idx)"

subsection \<open>The tree-backed index\<close>

text \<open>
  \<^verbatim>\<open>
  class Index:
      def __init__(self):
          self._index = rtree.index.Index()
          self._bounds = {}

      def insert(self, value, geometry):
          try:
              geoms = geometry.geoms
          except AttributeError:
              self._bounds.setdefault(value, []).append(geometry.bounds)
              self._index.insert(value, geometry.bounds)
          else:
              for geom in geoms:
                  self.insert(value, geom)

      def delete(self, value):
          for bounds in self._bounds.pop(value):
              self._index.delete(value, bounds)

      def intersection(self, geometry):
          try:
              geoms = geometry.geoms
          except AttributeError:
              return set(self._index.intersection(geometry.bounds))
          else:
              return reduce(operator.__or__, (self.intersection(geom) for geom in geoms), set())
  \<close>
  The R-tree of the library is the list of its entries \<open>(id, box)\<close>: \<open>insert\<close> adds an
  entry, \<open>delete\<close> removes one entry with that id and box, and \<open>intersection\<close> yields the
  ids of the entries whose box intersects the query box.
\<close>

record ('v, 'a) rtree_index =
  rtree_entries :: "('v \<times> 'a box) list"
  rtree_bounds :: "('v \<times> 'a box list) list"

definition rtree_empty :: "('v, 'a) rtree_index" where
  "rtree_empty = \<lparr>rtree_entries = [], rtree_bounds = []\<rparr>"

fun rtree_insert :: "'v \<Rightarrow> 'a shape \<Rightarrow> ('v, 'a) rtree_index \<Rightarrow> ('v, 'a) rtree_index" where
  "rtree_insert v (Simple b) idx =
     idx\<lparr>rtree_bounds := setdefault_append v b (rtree_bounds idx),
         rtree_entries := rtree_entries idx @ [(v, b)]\<rparr>"
| "rtree_insert v (Multi geoms) idx = fold (rtree_insert v) geoms idx"

definition rtree_delete :: "'v \<Rightarrow> ('v, 'a) rtree_index \<Rightarrow> error + ('v, 'a) rtree_index" where
  "rtree_delete v idx =
     (case map_of (rtree_bounds idx) v of
        None \<Rightarrow> Inl KeyError
      | Some bs \<Rightarrow>
          Inr (idx\<lparr>rtree_bounds := AList.delete v (rtree_bounds idx),
                   rtree_entries := fold (\<lambda>b entries. remove1 (v, b) entries) bs
                                         (rtree_entries idx)\<rparr>))"

fun rtree_intersection :: "('v, 'a::linorder) rtree_index \<Rightarrow> 'a shape \<Rightarrow> 'v set" where
  "rtree_intersection idx (Simple b) =
     set (map fst (filter (\<lambda>(v, b'). box_intersects b' b) (rtree_entries idx)))"
| "rtree_intersection idx (Multi geoms) =
     fold (\<lambda>geom acc. acc \<union> rtree_intersection idx geom) geoms {}"

subsection \<open>Sequences of calls\<close>

datatype ('v, 'a) index_call = Insert 'v "'a shape" | Delete 'v

fun fallback_call ::
  "('v, 'a) index_call \<Rightarrow> ('v, 'a) fallback_index \<Rightarrow> error + ('v, 'a) fallback_index" where
  "fallback_call (Insert v g) idx = Inr (fallback_insert v g idx)"
| "fallback_call (Delete v) idx = fallback_delete v idx"

fun rtree_call ::
  "('v, 'a) index_call \<Rightarrow> ('v, 'a) rtree_index \<Rightarrow> error + ('v, 'a) rtree_index" where
  "rtree_call (Insert v g) idx = Inr (rtree_insert v g idx)"
| "rtree_call (Delete v) idx = rtree_delete v idx"

fun run_calls :: "('c \<Rightarrow> 's \<Rightarrow> error + 's) \<Rightarrow> 'c list \<Rightarrow> 's \<Rightarrow> error + 's" where
  "run_calls f [] s = Inr s"
| "run_calls f (c # cs) s = (case f c s of Inl e \<Rightarrow> Inl e | Inr s' \<Rightarrow> run_calls f cs s')"

subsection \<open>The contract in the words of the spec\<close>

text \<open>
  Spec, section 4.3, for the tree-backed index: each simple part of a geometry is
  registered by its bounding box under the owning id, deletion removes every part of the
  id, and a query on a multi-part geometry unites the results of its parts.
  \<open>part_boxes\<close> are the boxes of the simple parts of a geometry, \<open>registered\<close> the
  boxes registered and not deleted after a sequence of calls, and \<open>contract_intersection\<close>
  the ids with a registered box that intersects the box of a part of the query.
\<close>

fun part_boxes :: "'a shape \<Rightarrow> 'a box list" where
  "part_boxes (Simple b) = [b]"
| "part_boxes (Multi geoms) = concat (map part_boxes geoms)"

fun registered_call :: "('v, 'a) index_call \<Rightarrow> ('v \<times> 'a box) list \<Rightarrow> ('v \<times> 'a box) list" where
  "registered_call (Insert v g) reg = reg @ map (Pair v) (part_boxes g)"
| "registered_call (Delete v) reg = filter (\<lambda>(v', b). v' \<noteq> v) reg"

definition registered :: "('v, 'a) index_call list \<Rightarrow> ('v \<times> 'a box) list" where
  "registered calls = fold registered_call calls []"

definition contract_intersection ::
  "('v \<times> ('a::linorder) box) list \<Rightarrow> 'a shape \<Rightarrow> 'v set" where
  "contract_intersection reg query =
     {v. \<exists>b \<in> set (part_boxes query). \<exists>b'. (v, b') \<in> set reg \<and> box_intersects b' b}"

text \<open>
  Auxiliary notions for the tree-backed index: \<open>add_box\<close> registers one box under an id,
  \<open>boxes_of\<close> are the boxes of the entries of an id in the R-tree, and an index is
  \<open>tracked\<close> when \<open>_bounds\<close> lists for every id exactly the boxes of its entries.
\<close>

definition add_box :: "'v \<Rightarrow> 'a box \<Rightarrow> ('v, 'a) rtree_index \<Rightarrow> ('v, 'a) rtree_index" where
  "add_box v b idx = idx\<lparr>rtree_bounds := setdefault_append v b (rtree_bounds idx),
                          rtree_entries := rtree_entries idx @ [(v, b)]\<rparr>"

definition boxes_of :: "'v \<Rightarrow> ('v \<times> 'a box) list \<Rightarrow> 'a box list" where
  "boxes_of v es = map snd (filter (\<lambda>(v', b). v' = v) es)"

definition tracked :: "('v, 'a) rtree_index \<Rightarrow> bool" where
  "tracked idx \<longleftrightarrow> (\<forall>v. map_of (rtree_bounds idx) v =
      (if boxes_of v (rtree_entries idx) = [] then None else Some (boxes_of v (rtree_entries idx))))"

text \<open>
  An example: a two-part geometry under the id 1, boxes under the ids 2 and 3, and the
  deletion of 3.
\<close>

definition example_calls :: "(int, int) index_call list" where
  "example_calls =
     [Insert 1 (Multi [Simple (0, 0, 1, 1), Simple (4, 4, 5, 5)]),
      Insert 2 (Simple (2, 2, 3, 3)),
      Insert 3 (Simple (9, 9, 10, 10)),
      Delete 3]"

section \<open>Tile cache proxy (c3nav/tileserver/wsgi.py)\<close>

subsection \<open>The surroundings of the server\<close>

text \<open>
  The helpers of \<open>c3nav.mapdata.utils.tiles\<close> and the classes of
  \<open>c3nav.mapdata.utils.cache\<close> are outside the sources, like the regular expressions and
  \<open>int\<close> of the standard library: they are parameters of the model.
  \<open>match_path\<close> is \<open>path_regex\<close> together with the conversions by \<open>int\<close> (the
  level, zoom, x and y of a path, when it matches); \<open>search_cookie\<close> is
  \<open>cookie_regex.search(cookie)\<close> with \<open>group(2)\<close>. Tile bounds are integers in the
  model. A restriction or permission is the integer id of an access restriction.
\<close>

record tile_utils =
  match_path :: "string \<Rightarrow> (int \<times> int \<times> int \<times> int) option"
  search_cookie :: "string \<Rightarrow> string option"
  get_tile_bounds :: "int \<Rightarrow> int \<Rightarrow> int \<Rightarrow> int \<times> int \<times> int \<times> int"
  build_base_cache_key :: "update \<Rightarrow> string"
  build_access_cache_key :: "int set \<Rightarrow> string"
  parse_tile_access_cookie :: "string \<Rightarrow> string \<Rightarrow> int set"
  build_tile_etag :: "int \<Rightarrow> int \<Rightarrow> int \<Rightarrow> int \<Rightarrow> string \<Rightarrow> string \<Rightarrow> string \<Rightarrow> string"

text \<open>
  A cache package: \<open>bounds_valid\<close>, and for every level its history and its restrictions,
  \<open>restrictions minx miny maxx maxy\<close> being the ids in
  \<open>level_data.restrictions[minx:maxx, miny:maxy]\<close>.
\<close>

record level_data =
  history :: map_history
  restrictions :: "int \<Rightarrow> int \<Rightarrow> int \<Rightarrow> int \<Rightarrow> int list"

record cache_package =
  bounds_valid :: "int \<Rightarrow> int \<Rightarrow> int \<Rightarrow> int \<Rightarrow> bool"
  package_levels :: "int \<rightharpoonup> level_data"

text \<open>
  The state of a worker (the attributes of \<open>TileServer\<close> that change after start-up, and
  the secret), and the state it shares with other workers: the memcached entry
  \<open>cache_package_filename\<close>, the cached tiles (keys that begin with a path), and the
  pickled packages in the data directory. The type \<open>'pkg\<close> of a cache package is left
  open where the server only stores and passes it.
\<close>

record 'pkg tile_server =
  tile_secret :: string
  cache_package :: "'pkg option"
  cache_package_etag :: "string option"
  cache_package_filename :: "string option"

record 'pkg shared_state =
  package_pointer :: "string option"
  tiles :: "string \<rightharpoonup> byte list"
  files :: "string \<rightharpoonup> 'pkg"

subsection \<open>load_cache_package\<close>

text \<open>
  \<^verbatim>\<open>
  def load_cache_package(self, cache):
      logger.debug('Downloading cache package from upstream...')
      try:
          headers = self.auth_headers.copy()
          if self.cache_package_etag is not None:
              headers['If-None-Match'] = self.cache_package_etag
          r = requests.get(self.upstream_base+'/map/cache/package.tar.xz', headers=headers)

          if r.status_code == 403:
              logger.error('Rejected cache package download with Error 403. Tile secret is probably incorrect.')
              return False

          if r.status_code == 304:
              if self.cache_package is not None:
                  logger.debug('Not modified.')
                  cache['cache_package_filename'] = self.cache_package_filename
                  return True
              logger.error('Unexpected not modified.')
              return False

          r.raise_for_status()
      except Exception as e:
          logger.error('Cache package download failed: %s' % e)
          return False

      logger.debug('Recieving and loading new cache package...')

      try:
          self.cache_package = CachePackage.read(BytesIO(r.content))
          self.cache_package_etag = r.headers.get('ETag', None)
      except Exception as e:
          logger.error('Cache package parsing failed: %s' % e)
          return False

      try:
          self.cache_package_filename = os.path.join(
              self.data_dir,
              datetime.now().strftime('%Y-%m-%d_%H-%M-%S-%f')+'.pickle'
          )
          with open(self.cache_package_filename, 'wb') as f:
              pickle.dump(self.cache_package, f)
          cache.set('cache_package_filename', self.cache_package_filename)
      except Exception as e:
          self.cache_package_etag = None
          logger.error('Saving pickled package failed: %s' % e)
          return False
      return True
  \<close>
  What the attempt meets outside the server is given by a \<open>refresh_world\<close>: the outcome
  of the request (an exception, or a response with status code, \<open>ETag\<close> header and
  content), the outcome of \<open>CachePackage.read\<close> on a content (\<open>None\<close> when it raises),
  the file name made from the clock, whether the file can be written, and whether the
  shared cache accepts a write. \<open>raise_for_status\<close> raises for the status codes from 400
  to 599. Every statement that can raise stands in a \<open>try\<close> block that catches
  \<open>Exception\<close>, so the function always returns a truth value: the model is a total
  function to \<open>bool\<close> and the states after the call.
\<close>

datatype fetch_result = FetchRaises | FetchResponse nat "string option" "byte list"

record 'pkg refresh_world =
  fetch :: fetch_result
  read_package :: "byte list \<Rightarrow> 'pkg option"
  now_filename :: string
  file_write_ok :: bool
  cache_write_ok :: bool

definition load_cache_package ::
  "'pkg refresh_world \<Rightarrow> 'pkg tile_server \<times> 'pkg shared_state \<Rightarrow>
   bool \<times> 'pkg tile_server \<times> 'pkg shared_state" where
  "load_cache_package w = (\<lambda>(self, sh).
     case fetch w of
       FetchRaises \<Rightarrow> (False, self, sh)
     | FetchResponse status_code etag content \<Rightarrow>
         if status_code = 403 then (False, self, sh)
         else if status_code = 304 then
           (if cache_package self \<noteq> None
            then (if cache_write_ok w
                  then (True, self, sh\<lparr>package_pointer := cache_package_filename self\<rparr>)
                  else (False, self, sh))
            else (False, self, sh))
         else if 400 \<le> status_code \<and> status_code < 600 then (False, self, sh)
         else
           (case read_package w content of
              None \<Rightarrow> (False, self, sh)
            | Some package \<Rightarrow>
                (let self1 = self\<lparr>cache_package := Some package, cache_package_etag := etag\<rparr>;
                     self2 = self1\<lparr>cache_package_filename := Some (now_filename w)\<rparr>
                 in if \<not> file_write_ok w
                    then (False, self2\<lparr>cache_package_etag := None\<rparr>, sh)
                    else
                      (let sh1 = sh\<lparr>files := (files sh)(now_filename w \<mapsto> package)\<rparr>
                       in if \<not> cache_write_ok w
                          then (False, self2\<lparr>cache_package_etag := None\<rparr>, sh1)
                          else (True, self2,
                                sh1\<lparr>package_pointer := Some (now_filename w)\<rparr>)))))"

text \<open>
  The package that an attempt has downloaded and parsed, if it got that far (an auxiliary
  notion, to tell the failures of the download and of the parsing from the failures of the
  saving).
\<close>

definition downloaded_package :: "'pkg refresh_world \<Rightarrow> 'pkg option" where
  "downloaded_package w =
     (case fetch w of
        FetchRaises \<Rightarrow> None
      | FetchResponse status_code etag content \<Rightarrow>
          if status_code = 403 \<or> status_code = 304 \<or> (400 \<le> status_code \<and> status_code < 600)
          then None else read_package w content)"

subsection \<open>get_cache_package\<close>

text \<open>
  \<^verbatim>\<open>
  def get_cache_package(self):
      cache_package_filename = self.cache.get('cache_package_filename')
      if cache_package_filename is None:
          logger.warning('cache_package_filename went missing.')
          return self.cache_package
      if self.cache_package_filename != cache_package_filename:
          logger.debug('Loading new cache package in worker.')
          self.cache_package_filename = cache_package_filename
          with open(self.cache_package_filename, 'rb') as f:
              self.cache_package = pickle.load(f)
      return self.cache_package
  \<close>
  Opening a file that does not exist raises; the file name has been assigned by then.
\<close>

definition get_cache_package ::
  "'pkg shared_state \<Rightarrow> 'pkg tile_server \<Rightarrow> error option \<times> 'pkg option \<times> 'pkg tile_server" where
  "get_cache_package sh self =
     (case package_pointer sh of
        None \<Rightarrow> (None, cache_package self, self)
      | Some filename \<Rightarrow>
          if cache_package_filename self \<noteq> Some filename
          then (let self1 = self\<lparr>cache_package_filename := Some filename\<rparr>
                in case files sh filename of
                     None \<Rightarrow> (Some OSError, None, self1)
                   | Some package \<Rightarrow>
                       (None, Some package, self1\<lparr>cache_package := Some package\<rparr>))
          else (None, cache_package self, self))"

subsection \<open>Serving a tile\<close>

text \<open>
  \<^verbatim>\<open>
  def __call__(self, env, start_response):
      path_info = env['PATH_INFO']
      match = self.path_regex.match(path_info)
      if match is None:
          return self.not_found(start_response, b'invalid tile path.')

      level, zoom, x, y = match.groups()

      zoom = int(zoom)
      if not (-2 <= zoom <= 5):
          return self.not_found(start_response, b'zoom out of bounds.')

      # do this to be thread safe
      cache_package = self.get_cache_package()

      # check if bounds are valid
      x = int(x)
      y = int(y)
      minx, miny, maxx, maxy = get_tile_bounds(zoom, x, y)
      if not cache_package.bounds_valid(minx, miny, maxx, maxy):
          return self.not_found(start_response, b'coordinates out of bounds.')

      # get level
      level = int(level)
      level_data = cache_package.levels.get(level)
      if level_data is None:
          return self.not_found(start_response, b'invalid level.')

      # build cache keys
      last_update = level_data.history.last_update(minx, miny, maxx, maxy)
      base_cache_key = build_base_cache_key(last_update)

      # decode access permissions
      access_permissions = set()
      access_cache_key = '0'

      cookie = env.get('HTTP_COOKIE', None)
      if cookie:
          cookie = self.cookie_regex.search(cookie)
          if cookie:
              cookie = cookie.group(2)
              access_permissions = (parse_tile_access_cookie(cookie, self.tile_secret) &
                                    set(level_data.restrictions[minx:maxx, miny:maxy]))
              access_cache_key = build_access_cache_key(access_permissions)

      # check browser cache
      if_none_match = env.get('HTTP_IF_NONE_MATCH')
      tile_etag = build_tile_etag(level, zoom, x, y, base_cache_key, access_cache_key, self.tile_secret)
      if if_none_match == tile_etag:
          start_response('304 Not Modified', ...)
          return [b'']

      cache_key = path_info+'_'+tile_etag
      cached_result = self.cache.get(cache_key)
      if cached_result is not None:
          return self.deliver_tile(start_response, tile_etag, cached_result)

      r = requests.get('%s/map/%d/%d/%d/%d/%s.png' % (self.upstream_base, level, zoom, x, y, access_cache_key),
                       headers=self.auth_headers)

      if r.status_code == 200 and r.headers['Content-Type'] == 'image/png':
          self.cache.set(cache_key, r.content)
          return self.deliver_tile(start_response, tile_etag, r.content)

      start_response('%d %s' % (r.status_code, r.reason), ...)
      return [r.content]
  \<close>
  The model follows the function in three steps. \<open>access_token\<close> is the token that the
  two tests on \<open>cookie\<close> leave (an empty cookie header counts as none).
  \<open>request_keys\<close> is the function up to the line that computes \<open>tile_etag\<close>: it gives
  the 404 response, or an exception, or the keys of the request together with the
  restrictions in the cell range of the tile. \<open>serve_tile\<close> is the rest; the renderer
  upstream is a function of the level, zoom, x, y and access key in the URL. A response is
  one of the four shapes that \<open>start_response\<close> is called with (the \<open>Date\<close> header is
  left out); \<open>relay_content_type\<close> is
  \<^verbatim>\<open>r.headers.get('Content-Type', 'text/plain')\<close>.
\<close>

record request =
  path_info :: string
  http_cookie :: "string option"
  http_if_none_match :: "string option"

datatype response =
    NotFound string
  | NotModified string
  | DeliverTile string "byte list"
  | Relay nat string string "byte list"

record upstream_response =
  status_code :: nat
  reason :: string
  content_type :: "string option"
  content :: "byte list"

record tile_keys =
  tile_level :: int
  tile_zoom :: int
  tile_x :: int
  tile_y :: int
  tile_restrictions :: "int set"
  access_cache_key :: string
  tile_etag :: string

definition access_token :: "tile_utils \<Rightarrow> request \<Rightarrow> string option" where
  "access_token U env =
     (case http_cookie env of
        None \<Rightarrow> None
      | Some cookie \<Rightarrow> if cookie = [] then None else search_cookie U cookie)"

definition request_keys ::
  "tile_utils \<Rightarrow> cache_package shared_state \<Rightarrow> cache_package tile_server \<Rightarrow> request \<Rightarrow>
   (error + response + tile_keys) \<times> cache_package tile_server" where
  "request_keys U sh self env =
     (case match_path U (path_info env) of
        None \<Rightarrow> (Inr (Inl (NotFound ''invalid tile path.'')), self)
      | Some (level, zoom, x, y) \<Rightarrow>
          if \<not> (- 2 \<le> zoom \<and> zoom \<le> 5)
          then (Inr (Inl (NotFound ''zoom out of bounds.'')), self)
          else
            (case get_cache_package sh self of
               (Some e, package, self') \<Rightarrow> (Inl e, self')
             | (None, None, self') \<Rightarrow> (Inl AttributeError, self')
             | (None, Some package, self') \<Rightarrow>
                 (let (minx, miny, maxx, maxy) = get_tile_bounds U zoom x y
                  in if \<not> bounds_valid package minx miny maxx maxy
                     then (Inr (Inl (NotFound ''coordinates out of bounds.'')), self')
                     else
                       (case package_levels package level of
                          None \<Rightarrow> (Inr (Inl (NotFound ''invalid level.'')), self')
                        | Some level_data \<Rightarrow>
                            (case last_update (history level_data) minx miny maxx maxy of
                               Inl e \<Rightarrow> (Inl e, self')
                             | Inr last_upd \<Rightarrow>
                                 (let base_cache_key = build_base_cache_key U last_upd;
                                      tile_restr = set (restrictions level_data minx miny maxx maxy);
                                      key = (case access_token U env of
                                               None \<Rightarrow> ''0''
                                             | Some cookie \<Rightarrow>
                                                 build_access_cache_key U
                                                   (parse_tile_access_cookie U cookie
                                                      (tile_secret self') \<inter> tile_restr))
                                  in (Inr (Inr \<lparr>tile_level = level, tile_zoom = zoom,
                                                tile_x = x, tile_y = y,
                                                tile_restrictions = tile_restr,
                                                access_cache_key = key,
                                                tile_etag = build_tile_etag U level zoom x y
                                                              base_cache_key key
                                                              (tile_secret self')\<rparr>),
                                      self')))))))"

definition cache_key :: "request \<Rightarrow> tile_keys \<Rightarrow> string" where
  "cache_key env k = path_info env @ ''_'' @ tile_etag k"

type_synonym upstream = "int \<Rightarrow> int \<Rightarrow> int \<Rightarrow> int \<Rightarrow> string \<Rightarrow> upstream_response"

definition relay_content_type :: "upstream_response \<Rightarrow> string" where
  "relay_content_type r = (case content_type r of None \<Rightarrow> ''text/plain'' | Some t \<Rightarrow> t)"

definition serve_tile ::
  "upstream \<Rightarrow> cache_package shared_state \<Rightarrow> request \<Rightarrow> tile_keys \<Rightarrow>
   (error + response) \<times> cache_package shared_state" where
  "serve_tile upstream sh env k =
     (if http_if_none_match env = Some (tile_etag k) then (Inr (NotModified (tile_etag k)), sh)
      else
        (case tiles sh (cache_key env k) of
           Some cached_result \<Rightarrow> (Inr (DeliverTile (tile_etag k) cached_result), sh)
         | None \<Rightarrow>
             (let r = upstream (tile_level k) (tile_zoom k) (tile_x k) (tile_y k)
                        (access_cache_key k)
              in if status_code r = 200
                 then (case content_type r of
                         None \<Rightarrow> (Inl KeyError, sh)
                       | Some t \<Rightarrow>
                           if t = ''image/png''
                           then (Inr (DeliverTile (tile_etag k) (content r)),
                                 sh\<lparr>tiles := (tiles sh)(cache_key env k \<mapsto> content r)\<rparr>)
                           else (Inr (Relay (status_code r) (reason r)
                                        (relay_content_type r) (content r)), sh))
                 else (Inr (Relay (status_code r) (reason r) (relay_content_type r)
                              (content r)), sh))))"

definition call ::
  "tile_utils \<Rightarrow> upstream \<Rightarrow>
   cache_package shared_state \<Rightarrow> cache_package tile_server \<Rightarrow> request \<Rightarrow>
   (error + response) \<times> cache_package tile_server \<times> cache_package shared_state" where
  "call U upstream sh self env =
     (case request_keys U sh self env of
        (Inl e, self') \<Rightarrow> (Inl e, self', sh)
      | (Inr (Inl not_found), self') \<Rightarrow> (Inr not_found, self', sh)
      | (Inr (Inr k), self') \<Rightarrow>
          (let (result, sh') = serve_tile upstream sh env k in (result, self', sh')))"

text \<open>
  The permission set that a request decodes to: that of its token, and the empty set when
  it has none.
\<close>

definition decoded_permissions :: "tile_utils \<Rightarrow> string \<Rightarrow> request \<Rightarrow> int set" where
  "decoded_permissions U secret env =
     (case access_token U env of
        None \<Rightarrow> {}
      | Some cookie \<Rightarrow> parse_tile_access_cookie U cookie secret)"

subsection \<open>An example server\<close>

text \<open>
  One tile with two paths (\<open>path_regex\<close> takes any number of digits, and \<open>int\<close>
  reads \<open>01\<close> as 1), tokens \<open>a\<close> and \<open>b\<close> that grant the permissions
  \<open>{7, 8}\<close> and \<open>{7, 9}\<close>, and a package whose level 1 has the restriction 7 only.
\<close>

definition example_utils :: tile_utils where
  "example_utils =
     \<lparr>match_path = (\<lambda>p. if p = ''/1/0/0/0.png'' \<or> p = ''/01/0/0/0.png''
                        then Some (1, 0, 0, 0) else None),
      search_cookie = (\<lambda>c. Some c),
      get_tile_bounds = (\<lambda>z x y. (0, 0, 1, 1)),
      build_base_cache_key = (\<lambda>u. ''b''),
      build_access_cache_key = (\<lambda>s. if s = {} then ''0'' else if s = {7} then ''7'' else ''x''),
      parse_tile_access_cookie =
        (\<lambda>tok secret. if tok = ''a'' then {7, 8} else if tok = ''b'' then {7, 9} else {}),
      build_tile_etag = (\<lambda>l z x y b a s. b @ a @ s)\<rparr>"

definition example_package :: cache_package where
  "example_package =
     \<lparr>bounds_valid = (\<lambda>minx miny maxx maxy. True),
      package_levels = [1 \<mapsto> \<lparr>history = history_base,
                                 restrictions = (\<lambda>minx miny maxx maxy. [7])\<rparr>]\<rparr>"

definition example_server :: "cache_package tile_server" where
  "example_server = \<lparr>tile_secret = ''s'', cache_package = Some example_package,
                      cache_package_etag = None, cache_package_filename = None\<rparr>"

definition example_shared :: "cache_package shared_state" where
  "example_shared = \<lparr>package_pointer = None, tiles = Map.empty, files = Map.empty\<rparr>"

definition example_request :: "string \<Rightarrow> request" where
  "example_request tok = \<lparr>path_info = ''/1/0/0/0.png'', http_cookie = Some tok,
                           http_if_none_match = None\<rparr>"

text \<open>
  A request for the same tile by its other path, and a renderer upstream that answers every
  request with the same image.
\<close>

definition example_request_padded :: "string \<Rightarrow> request" where
  "example_request_padded tok = \<lparr>path_info = ''/01/0/0/0.png'', http_cookie = Some tok,
                                  http_if_none_match = None\<rparr>"

definition example_upstream :: upstream where
  "example_upstream level zoom x y key =
     \<lparr>status_code = 200, reason = ''OK'', content_type = Some ''image/png'', content = [1]\<rparr>"

text \<open>
  A worker with the package 1 in force, and a refresh that downloads and parses the package
  2 and then cannot write the file.
\<close>

definition server_with_package :: "nat tile_server" where
  "server_with_package = \<lparr>tile_secret = ''s'', cache_package = Some 1,
                           cache_package_etag = Some ''v1'',
                           cache_package_filename = Some ''1.pickle''\<rparr>"

definition shared_with_package :: "nat shared_state" where
  "shared_with_package = \<lparr>package_pointer = Some ''1.pickle'', tiles = Map.empty,
                           files = [''1.pickle'' \<mapsto> 1]\<rparr>"

definition world_store_fails :: "nat refresh_world" where
  "world_store_fails = \<lparr>fetch = FetchResponse 200 (Some ''v2'') [],
                         read_package = (\<lambda>content. Some 2),
                         now_filename = ''2.pickle'',
                         file_write_ok = False, cache_write_ok = True\<rparr>"

definition world_parse_fails :: "nat refresh_world" where
  "world_parse_fails = \<lparr>fetch = FetchResponse 200 (Some ''v2'') [],
                         read_package = (\<lambda>content. None),
                         now_filename = ''2.pickle'',
                         file_write_ok = True, cache_write_ok = True\<rparr>"

section \<open>Verification\<close>

subsection \<open>Lists and folds\<close>

lemma enumerate_map_nth: "enumerate 0 xs = map (\<lambda>i. (i, xs ! i)) [0..<length xs]"
  by (rule nth_equalityI) (simp_all add: nth_enumerate_eq)

lemma enumerate_map: "enumerate n (map f xs) = map (\<lambda>(k, x). (k, f x)) (enumerate n xs)"
  by (induction xs arbitrary: n) simp_all

text \<open>
  A loop that never changes an observation \<open>g\<close> of its state leaves it as it was; a loop
  over distinct items of which exactly one sets the observation ends with that value.
\<close>

lemma fold_untouched:
  "(\<And>x st. x \<in> set xs \<Longrightarrow> g (f x st) = g st) \<Longrightarrow> g (fold f xs st) = g st"
  by (induction xs arbitrary: st) simp_all

lemma fold_once:
  assumes "distinct xs" "x \<in> set xs"
    and other: "\<And>a st. a \<in> set xs \<Longrightarrow> a \<noteq> x \<Longrightarrow> g (f a st) = g st"
    and hit: "\<And>st. g (f x st) = v"
  shows "g (fold f xs st) = v"
proof -
  from assms(2) obtain as bs where xs: "xs = as @ x # bs" by (auto dest: split_list)
  with assms(1) have nx: "x \<notin> set as" "x \<notin> set bs" by auto
  have "g (fold f bs (f x (fold f as st))) = g (f x (fold f as st))"
    by (rule fold_untouched) (use nx other xs in auto)
  then show ?thesis by (simp add: xs hit)
qed

lemma fold_untouched_at:
  "(\<And>x d. x \<in> set xs \<Longrightarrow> f x d c = d c) \<Longrightarrow> fold f xs d c = d c"
  using fold_untouched[where g = "\<lambda>d. d c" and f = f and xs = xs and st = d] by simp

lemma fold_once_at:
  "distinct xs \<Longrightarrow> x \<in> set xs \<Longrightarrow> (\<And>a d. a \<in> set xs \<Longrightarrow> a \<noteq> x \<Longrightarrow> f a d c = d c) \<Longrightarrow>
   (\<And>d. f x d c = v) \<Longrightarrow> fold f xs d c = v"
  using fold_once[where g = "\<lambda>d. d c" and f = f and xs = xs and st = d and x = x and v = v]
  by simp

subsection \<open>The grid\<close>

lemma set_cells_of: "c \<in> set (cells_of b) \<longleftrightarrow> in_bounds b c"
  by (cases b; cases c) (auto simp: image_iff)

lemma array_any_iff: "array_any b m \<longleftrightarrow> (\<exists>c. in_bounds b c \<and> m c)"
  by (simp add: array_any_def list_ex_iff set_cells_of Bex_def del: split_paired_Ex)

subsection \<open>What simplify computes\<close>

lemma simplify_kept:
  "filter (\<lambda>(i, update, affected). i = 0 \<or> array_any (bounds s) affected)
      (map (\<lambda>(i, update). (i, update, array_eq (data s) i)) (enumerate 0 (updates s)))
   = map (\<lambda>i. (i, updates s ! i, array_eq (data s) i)) (kept_idx s)"
  by (simp add: enumerate_map_nth kept_idx_def filter_map comp_def)

lemma kept_idx_distinct: "distinct (kept_idx s)"
  by (simp add: kept_idx_def)

lemma set_kept_idx:
  "i \<in> set (kept_idx s) \<longleftrightarrow>
     i < length (updates s) \<and> (i = 0 \<or> (\<exists>c. in_bounds (bounds s) c \<and> unat (data s c) = i))"
  by (auto simp: kept_idx_def array_any_iff array_eq_def)

lemma kept_idx_0: "updates s \<noteq> [] \<Longrightarrow> kept_idx s \<noteq> [] \<and> kept_idx s ! 0 = 0"
  by (simp add: kept_idx_def upt_conv_Cons)

lemma kept_idx_length_le: "length (kept_idx s) \<le> 65536"
proof -
  have "set (kept_idx s) \<subseteq> {0..<65536}"
  proof
    fix i assume "i \<in> set (kept_idx s)"
    then consider "i = 0" | c where "unat (data s c) = i" by (auto simp: set_kept_idx)
    then show "i \<in> {0..<65536}"
    proof cases
      case 1 then show ?thesis by simp
    next
      case 2
      have "unat (data s c) < 2 ^ LENGTH(16)" by (rule unsigned_less)
      with 2 show ?thesis by simp
    qed
  qed
  then have "card (set (kept_idx s)) \<le> card {0..<65536::nat}"
    by (intro card_mono) auto
  then show ?thesis by (simp add: distinct_card[OF kept_idx_distinct])
qed

lemma simplify_Inr:
  assumes "updates s \<noteq> []"
  shows "simplify s = Inr (s\<lparr>updates := map (nth (updates s)) (kept_idx s),
            data := fold (\<lambda>(k, i). array_assign (bounds s) (array_eq (data s) i) (of_nat k))
                      (enumerate 0 (kept_idx s)) (data s)\<rparr>)"
  unfolding simplify_def simplify_kept Let_def
  using kept_idx_0[OF assms]
  by (simp add: enumerate_map fold_map comp_def case_prod_unfold)

lemma simplify_Inl: "updates s = [] \<Longrightarrow> simplify s = Inl ValueError"
  by (simp add: simplify_def)

lemma simplify_fields:
  assumes "simplify s = Inr s'"
  shows "bounds s' = bounds s" "resolution s' = resolution s"
    "updates s' = map (nth (updates s)) (kept_idx s)" "updates s \<noteq> []"
proof -
  show ne: "updates s \<noteq> []" using assms by (auto simp: simplify_Inl)
  from simplify_Inr[OF ne] assms
  show "bounds s' = bounds s" "resolution s' = resolution s"
    "updates s' = map (nth (updates s)) (kept_idx s)" by auto
qed

lemma simplify_data_hit:
  assumes "simplify s = Inr s'" "in_bounds (bounds s) c" "k < length (kept_idx s)"
    "kept_idx s ! k = unat (data s c)"
  shows "data s' c = of_nat k"
proof -
  have ne: "updates s \<noteq> []" using assms(1) by (auto simp: simplify_Inl)
  let ?f = "\<lambda>(k, i). array_assign (bounds s) (array_eq (data s) i) (of_nat k)"
  have d: "data s' = fold ?f (enumerate 0 (kept_idx s)) (data s)"
    using simplify_Inr[OF ne] assms(1) by auto
  have "fold ?f (enumerate 0 (kept_idx s)) (data s) c = of_nat k"
  proof (rule fold_once_at[where x = "(k, kept_idx s ! k)"])
    show "distinct (enumerate 0 (kept_idx s))" by (simp add: distinct_enumerate)
    show "(k, kept_idx s ! k) \<in> set (enumerate 0 (kept_idx s))"
      using assms(3) by (simp add: in_set_enumerate_eq)
    show "?f a st c = st c" if "a \<in> set (enumerate 0 (kept_idx s))" "a \<noteq> (k, kept_idx s ! k)" for a st
    proof -
      obtain k' i' where a: "a = (k', i')" by (cases a)
      with that have k': "k' < length (kept_idx s)" "kept_idx s ! k' = i'" "k' \<noteq> k"
        by (auto simp: in_set_enumerate_eq)
      then have "i' \<noteq> kept_idx s ! k"
        using kept_idx_distinct[of s] assms(3) by (auto simp: nth_eq_iff_index_eq)
      then show ?thesis using assms(4) by (simp add: a array_assign_def array_eq_def)
    qed
    show "?f (k, kept_idx s ! k) st c = of_nat k" for st
      using assms(2,4) by (simp add: array_assign_def array_eq_def)
  qed
  then show ?thesis by (simp add: d)
qed

lemma simplify_data_miss:
  assumes "simplify s = Inr s'" "\<not> in_bounds (bounds s) c \<or> unat (data s c) \<notin> set (kept_idx s)"
  shows "data s' c = data s c"
proof -
  have ne: "updates s \<noteq> []" using assms(1) by (auto simp: simplify_Inl)
  let ?f = "\<lambda>(k, i). array_assign (bounds s) (array_eq (data s) i) (of_nat k)"
  have d: "data s' = fold ?f (enumerate 0 (kept_idx s)) (data s)"
    using simplify_Inr[OF ne] assms(1) by auto
  have "fold ?f (enumerate 0 (kept_idx s)) (data s) c = data s c"
  proof (rule fold_untouched_at)
    fix a st assume "a \<in> set (enumerate 0 (kept_idx s))"
    then have "fst a < length (kept_idx s)" "kept_idx s ! fst a = snd a"
      by (auto simp: in_set_enumerate_eq)
    then have "snd a \<in> set (kept_idx s)" by (metis nth_mem)
    then show "?f a st c = st c"
      using assms(2) by (auto simp: array_assign_def array_eq_def case_prod_unfold)
  qed
  then show ?thesis by (simp add: d)
qed

lemma simplify_idem:
  assumes "simplify s = Inr s1"
  shows "simplify s1 = Inr s1"
proof -
  note f = simplify_fields[OF assms]
  let ?ks = "kept_idx s"
  have len: "length (updates s1) = length ?ks" by (simp add: f)
  have ks0: "?ks \<noteq> []" "?ks ! 0 = 0" using kept_idx_0[OF f(4)] by auto
  then have ne1: "updates s1 \<noteq> []" using f(3) by simp
  have ref: "\<exists>c. in_bounds (bounds s1) c \<and> unat (data s1 c) = k" if "k < length ?ks" "k \<noteq> 0" for k
  proof -
    have "0 < length ?ks" using ks0 by simp
    then have "?ks ! k \<noteq> ?ks ! 0"
      using that nth_eq_iff_index_eq[OF kept_idx_distinct, of k s 0] by simp
    moreover have "?ks ! k \<in> set ?ks" using that by simp
    ultimately obtain c where c: "in_bounds (bounds s) c" "unat (data s c) = ?ks ! k"
      by (auto simp: set_kept_idx ks0)
    have "data s1 c = of_nat k" using simplify_data_hit[OF assms c(1) that(1)] c(2) by simp
    moreover have "k < 2 ^ LENGTH(16)" using that(1) kept_idx_length_le[of s] by simp
    ultimately have "unat (data s1 c) = k" by (simp add: unat_of_nat)
    with c(1) show ?thesis unfolding f(1) by blast
  qed
  have ks1: "kept_idx s1 = [0..<length ?ks]"
  proof -
    have "kept_idx s1 = filter (\<lambda>i. i = 0 \<or> array_any (bounds s1) (array_eq (data s1) i))
                          [0..<length ?ks]"
      unfolding kept_idx_def[of s1] len ..
    also have "\<dots> = [0..<length ?ks]"
    proof (rule filter_True, rule ballI)
      fix k assume "k \<in> set [0..<length ?ks]"
      then have "k < length ?ks" by simp
      then show "k = 0 \<or> array_any (bounds s1) (array_eq (data s1) k)"
        using ref[of k] unfolding array_any_iff array_eq_def by blast
    qed
    finally show ?thesis .
  qed
  obtain s2 where s2: "simplify s1 = Inr s2" using simplify_Inr[OF ne1] by blast
  note f2 = simplify_fields[OF s2]
  have u: "updates s2 = updates s1" by (simp add: f2 ks1 len[symmetric] map_nth)
  have d: "data s2 = data s1"
  proof
    fix c
    show "data s2 c = data s1 c"
    proof (cases "in_bounds (bounds s1) c \<and> unat (data s1 c) < length ?ks")
      case True
      then have "data s2 c = of_nat (unat (data s1 c))"
        by (intro simplify_data_hit[OF s2]) (simp_all add: ks1)
      then show ?thesis by simp
    next
      case False
      then show ?thesis by (intro simplify_data_miss[OF s2]) (auto simp: ks1)
    qed
  qed
  have "s2 = s1" using u d f2(1,2) by (intro map_history.equality) simp_all
  with s2 show ?thesis by simp
qed

subsection \<open>Growing the grid, add_geometry and last_update\<close>

lemma valid_cells_iff:
  "valid_cells s \<longleftrightarrow> updates s \<noteq> [] \<and> (\<forall>c. in_bounds (bounds s) c \<longrightarrow> unat (data s c) < length (updates s))"
  by (simp add: valid_cells_def list_all_iff set_cells_of Ball_def del: split_paired_All)

lemma valid_cellsD:
  "valid_cells s \<Longrightarrow> in_bounds (bounds s) c \<Longrightarrow> unat (data s c) < length (updates s)"
  "valid_cells s \<Longrightarrow> updates s \<noteq> []"
  unfolding valid_cells_iff by blast+

lemma valid_cellsI:
  "updates s \<noteq> [] \<Longrightarrow> (\<And>c. in_bounds (bounds s) c \<Longrightarrow> unat (data s c) < length (updates s))
   \<Longrightarrow> valid_cells s"
  by (simp add: valid_cells_iff)

lemma fit_bounds_simps [simp]:
  "updates (fit_bounds b s) = updates s"
  "resolution (fit_bounds b s) = resolution s"
  "data (fit_bounds b s) c = (if in_bounds (bounds s) c then data s c else 0)"
  by (simp_all add: fit_bounds_def)

lemma in_bounds_has_cells: "in_bounds b c \<Longrightarrow> has_cells b"
  by (cases b; cases c) auto

lemma in_combined_bounds:
  "in_bounds a c \<or> in_bounds b c \<Longrightarrow> in_bounds (combined_bounds a b) c"
  by (cases a; cases b; cases c) auto

lemma fit_bounds_old: "in_bounds (bounds s) c \<Longrightarrow> in_bounds (bounds (fit_bounds b s)) c"
  by (simp add: fit_bounds_def in_bounds_has_cells in_combined_bounds)

lemma fit_bounds_new: "in_bounds b c \<Longrightarrow> in_bounds (bounds (fit_bounds b s)) c"
  by (simp add: fit_bounds_def in_combined_bounds)

lemma in_cells_hull: "c \<in> set cs \<Longrightarrow> in_bounds (cells_hull cs) c"
proof -
  assume c: "c \<in> set cs"
  obtain cx cy where [simp]: "c = (cx, cy)" by (cases c)
  have "cx \<in> set (map fst cs)" "cy \<in> set (map snd cs)" using c by force+
  then have "Min (set (map fst cs)) \<le> cx" "cx \<le> Max (set (map fst cs))"
    "Min (set (map snd cs)) \<le> cy" "cy \<le> Max (set (map snd cs))"
    by (auto intro: Min_le Max_ge)
  then show ?thesis by (simp add: cells_hull_def)
qed

lemma set_geometry_simps [simp]:
  "updates (set_geometry rz g v s) = updates s"
  "resolution (set_geometry rz g v s) = resolution s"
  by (simp_all add: set_geometry_def Let_def)

lemma set_geometry_touched:
  assumes "c \<in> set (rz (resolution s) g)"
  shows "in_bounds (bounds (set_geometry rz g v s)) c" "data (set_geometry rz g v s) c = v"
proof -
  let ?cs = "rz (resolution s) g"
  have ne: "?cs \<noteq> []" using assms by auto
  have "in_bounds (bounds (fit_bounds (cells_hull ?cs) s)) c"
    by (rule fit_bounds_new) (rule in_cells_hull[OF assms])
  then show "in_bounds (bounds (set_geometry rz g v s)) c" "data (set_geometry rz g v s) c = v"
    using ne assms by (simp_all add: set_geometry_def Let_def array_assign_def get_geometry_cells_def)
qed

lemma set_geometry_cases:
  assumes "in_bounds (bounds (set_geometry rz g v s)) c"
  shows "data (set_geometry rz g v s) c = v
     \<or> (in_bounds (bounds s) c \<and> data (set_geometry rz g v s) c = data s c)
     \<or> data (set_geometry rz g v s) c = 0"
proof (cases "rz (resolution s) g = []")
  case True
  then show ?thesis using assms by (simp add: set_geometry_def)
next
  case False
  then show ?thesis by (simp add: set_geometry_def Let_def array_assign_def)
qed

lemma add_geometry_valid:
  assumes v: "valid_cells s" and cap: "length (updates s) < 65536"
  shows "\<exists>s'. add_geometry rz g u s = Inr s' \<and> valid_cells s' \<and> last (updates s') = u \<and>
           length (updates s') \<le> length (updates s) + 1 \<and> resolution s' = resolution s \<and>
           (\<forall>c \<in> set (rz (resolution s) g).
               in_bounds (bounds s') c \<and> unat (data s' c) = length (updates s') - 1)"
proof -
  define sa where "sa = (if last (updates s) \<noteq> u then s\<lparr>updates := updates s @ [u]\<rparr> else s)"
  define n where "n = length (updates sa)"
  define s' where "s' = set_geometry rz g (of_nat (n - 1)) sa"
  have ne: "updates s \<noteq> []" using v by (rule valid_cellsD)
  have ag: "add_geometry rz g u s = Inr s'"
    using ne by (simp add: add_geometry_def s'_def sa_def n_def Let_def)
  have n: "0 < n" "n \<le> 65536" "length (updates s) \<le> n" "n \<le> length (updates s) + 1"
    using ne cap by (auto simp: n_def sa_def)
  have un: "unat (of_nat (n - 1) :: 16 word) = n - 1"
    using n by (subst unat_of_nat) simp
  have sa: "resolution sa = resolution s" "bounds sa = bounds s" "data sa = data s"
    "last (updates sa) = u" "updates sa \<noteq> []"
    using ne by (auto simp: sa_def)
  have us': "updates s' = updates sa" by (simp add: s'_def)
  have "unat (data s' c) < n" if "in_bounds (bounds s') c" for c
  proof -
    have "in_bounds (bounds (set_geometry rz g (of_nat (n - 1)) sa)) c"
      using that unfolding s'_def .
    from set_geometry_cases[OF this]
    consider "data s' c = of_nat (n - 1)" | "data s' c = data sa c" "in_bounds (bounds s) c" 
      | "data s' c = 0"
      unfolding s'_def sa by blast
    then show ?thesis
    proof cases
      case 1 then show ?thesis using un n by simp
    next
      case 2 then show ?thesis using valid_cellsD(1)[OF v 2(2)] n by (simp add: sa)
    next
      case 3 then show ?thesis using n by simp
    qed
  qed
  then have "valid_cells s'" by (intro valid_cellsI) (simp_all add: us' sa n_def)
  moreover have "in_bounds (bounds s') c \<and> unat (data s' c) = length (updates s') - 1"
    if "c \<in> set (rz (resolution s) g)" for c
    using set_geometry_touched[of c rz sa g "of_nat (n - 1)"] that un
    by (simp add: s'_def sa us' n_def)
  moreover have "resolution s' = resolution s" by (simp add: s'_def sa)
  ultimately show ?thesis using ag n sa by (auto simp: us' n_def)
qed

lemma last_update_max:
  assumes v: "valid_cells s" and c: "in_bounds (bounds s) c"
    and r: "cell_in_rect (resolution s) minx miny maxx maxy c"
    and top: "unat (data s c) = length (updates s) - 1"
  shows "last_update s minx miny maxx maxy = Inr (last (updates s))"
proof -
  let ?cells = "get_rect s minx miny maxx maxy"
  have mem: "data s c \<in> set ?cells"
    using c r by (auto simp: get_rect_def set_cells_of)
  have le: "w \<le> data s c" if "w \<in> set ?cells" for w
  proof -
    from that obtain c' where "in_bounds (bounds s) c'" "w = data s c'"
      by (auto simp: get_rect_def set_cells_of)
    then have "unat w < length (updates s)" using valid_cellsD(1)[OF v] by simp
    then show ?thesis using top by (simp add: word_le_nat_alt)
  qed
  have "Max (set ?cells) = data s c"
    by (rule Max_eqI) (use mem le in auto)
  moreover have "?cells \<noteq> []" using mem by auto
  moreover have "updates s \<noteq> []" using v by (rule valid_cellsD)
  ultimately show ?thesis
    by (simp add: last_update_def Let_def nth_or_raise_def top last_conv_nth)
qed

lemma last_update_empty:
  "updates t \<noteq> [] \<Longrightarrow> get_rect t a b c d = [] \<Longrightarrow> last_update t a b c d = Inr (updates t ! 0)"
  by (simp add: last_update_def nth_or_raise_def)

subsection \<open>composite\<close>

lemma combined_bounds_absorb: "combined_bounds b (combined_bounds a b) = combined_bounds a b"
  by (cases a; cases b) auto

lemma combined_bounds_idem: "combined_bounds b b = b"
  by (cases b) auto

lemma composite_bounds_eq:
  "bounds (fit_bounds (bounds (fit_bounds (bounds other) self)) other)
     = bounds (fit_bounds (bounds other) self)"
  by (simp add: fit_bounds_def combined_bounds_absorb combined_bounds_idem)

lemma composite_mismatch:
  "resolution self \<noteq> resolution other \<Longrightarrow>
     composite rz other mg self = (Some ValueError, self, other)"
  by (simp add: composite_def)

lemma composite_other:
  assumes "resolution self = resolution other"
  shows "snd (snd (composite rz other mg self))
           = fit_bounds (bounds (fit_bounds (bounds other) self)) other"
  using assms by (simp add: composite_def Let_def split: prod.splits sum.splits)

lemma update_index_distinct:
  assumes "distinct us" "j < length us"
  shows "update_index us (us ! j) = Some j"
proof -
  let ?f = "\<lambda>(i, u) m. m(u \<mapsto> i)"
  have "(\<lambda>m. m (us ! j)) (fold ?f (enumerate 0 us) Map.empty) = Some j"
  proof (rule fold_once[where g = "\<lambda>m. m (us ! j)" and f = ?f and x = "(j, us ! j)"])
    show "distinct (enumerate 0 us)" by (simp add: distinct_enumerate)
    show "(j, us ! j) \<in> set (enumerate 0 us)" using assms(2) by (simp add: in_set_enumerate_eq)
    show "(?f a st) (us ! j) = st (us ! j)"
      if "a \<in> set (enumerate 0 us)" "a \<noteq> (j, us ! j)" for a st
    proof -
      obtain i u where a: "a = (i, u)" by (cases a)
      with that have "i < length us" "us ! i = u" "i \<noteq> j" by (auto simp: in_set_enumerate_eq)
      then have "u \<noteq> us ! j" using assms by (auto simp: nth_eq_iff_index_eq)
      then show ?thesis by (simp add: a)
    qed
    show "(?f (j, us ! j) st) (us ! j) = Some j" for st by simp
  qed
  then show ?thesis by (simp add: update_index_def)
qed

lemma update_index_SomeD:
  assumes "update_index us u = Some j"
  shows "j < length us \<and> us ! j = u"
proof -
  let ?f = "\<lambda>(i, u) m. m(u \<mapsto> i)"
  have aux: "fold ?f xs m u = Some j \<Longrightarrow> m u = Some j \<or> (j, u) \<in> set xs"
    for xs :: "(nat \<times> update) list" and m
  proof (induction xs arbitrary: m)
    case Nil
    then show ?case by simp
  next
    case (Cons a xs)
    obtain i u' where a: "a = (i, u')" by (cases a)
    from Cons.prems have "fold ?f xs (m(u' \<mapsto> i)) u = Some j"
      unfolding a fold_simps by (simp only: prod.case)
    from Cons.IH[OF this] show ?case by (auto simp: a split: if_splits)
  qed
  from aux[of "enumerate 0 us" Map.empty] assms
  have "(j, u) \<in> set (enumerate 0 us)" unfolding update_index_def by simp
  then show ?thesis by (auto simp: in_set_enumerate_eq)
qed

lemma simplify_lookup:
  assumes s: "simplify s = Inr s'" and c: "in_bounds (bounds s) c"
    and v: "unat (data s c) < length (updates s)"
  shows "unat (data s' c) < length (updates s')"
    "updates s' ! unat (data s' c) = updates s ! unat (data s c)"
proof -
  have "unat (data s c) \<in> set (kept_idx s)" using c v unfolding set_kept_idx by blast
  then obtain k where k: "k < length (kept_idx s)" "kept_idx s ! k = unat (data s c)"
    by (auto simp: in_set_conv_nth)
  have "data s' c = of_nat k" by (rule simplify_data_hit[OF s c k])
  moreover have "k < 2 ^ LENGTH(16)" using k(1) kept_idx_length_le[of s] by simp
  ultimately have u: "unat (data s' c) = k" by (simp add: unat_of_nat)
  show "unat (data s' c) < length (updates s')" using k(1) by (simp add: u simplify_fields(3)[OF s])
  show "updates s' ! unat (data s' c) = updates s ! unat (data s c)"
    using k by (simp add: u simplify_fields(3)[OF s])
qed

lemma reindex_self:
  assumes d: "distinct us" "distinct nu" and j: "j < length us" and i: "i < length nu"
    and eq: "nu ! i = us ! j" and c: "in_bounds sb c" and dj: "unat (self_data c) = j"
  shows "fst (fold (reindex_step sb ob self_data (update_index us) oi)
                (enumerate 0 nu) st) c = of_nat i"
proof (rule fold_once[where g = "\<lambda>st. fst st c" and x = "(i, nu ! i)"
        and f = "reindex_step sb ob self_data (update_index us) oi"])
  show "distinct (enumerate 0 nu)" by (simp add: distinct_enumerate)
  show "(i, nu ! i) \<in> set (enumerate 0 nu)" using i by (simp add: in_set_enumerate_eq)
  show "fst (reindex_step sb ob self_data (update_index us) oi a st) c = fst st c"
    if "a \<in> set (enumerate 0 nu)" "a \<noteq> (i, nu ! i)" for a st
  proof -
    obtain i' u' where a: "a = (i', u')" by (cases a)
    with that have i': "i' < length nu" "nu ! i' = u'" "i' \<noteq> i"
      by (auto simp: in_set_enumerate_eq)
    then have ne: "u' \<noteq> us ! j"
      using nth_eq_iff_index_eq[OF d(2) i'(1) i] eq by auto
    show ?thesis
    proof (cases "update_index us u'")
      case None
      then show ?thesis by (simp add: reindex_step_def a case_prod_unfold)
    next
      case (Some j')
      then have "us ! j' = u'" by (auto dest: update_index_SomeD)
      with ne have "j' \<noteq> j" by auto
      then show ?thesis
        using Some dj by (simp add: reindex_step_def a case_prod_unfold array_assign_def array_eq_def)
    qed
  qed
  show "fst (reindex_step sb ob self_data (update_index us) oi (i, nu ! i) st) c = of_nat i" for st
    using update_index_distinct[OF d(1) j] c dj
    by (simp add: reindex_step_def eq case_prod_unfold array_assign_def array_eq_def)
qed

lemma composite_outside_mask:
  assumes res: "resolution self = resolution other"
    and v: "valid_cells self" and asc: "ascending_updates self"
    and cap: "card (set (updates self) \<union> set (updates other)) \<le> 65536"
    and c: "in_bounds (bounds self) c" and out: "c \<notin> set (rz (resolution self) g)"
    and comp: "composite rz other (Some g) self = (e, self', other')"
  shows "e = None" "in_bounds (bounds self') c" "unat (data self' c) < length (updates self')"
    "updates self' ! unat (data self' c) = updates self ! unat (data self c)"
proof -
  define self1 where "self1 = fit_bounds (bounds other) self"
  define other1 where "other1 = fit_bounds (bounds self1) other"
  define nu where "nu = sorted_list_of_set (set (updates self1) \<union> set (updates other1))"
  define st where "st = fold (reindex_step (bounds self1) (bounds other1) (data self1)
                       (update_index (updates self1)) (update_index (updates other1)))
                    (enumerate 0 nu) (data self1, data other1)"
  define maximum where "maximum = (\<lambda>c. max (fst st c) (snd st c))"
  define sd' where "sd' = array_assign_from (bounds self1) (get_geometry_cells rz self1 g) maximum (fst st)"
  define self2 where "self2 = self1\<lparr>data := sd', updates := nu\<rparr>"
  have comp2: "composite rz other (Some g) self =
      (case simplify self2 of Inl e \<Rightarrow> (Some e, self2, other1) | Inr self3 \<Rightarrow> (None, self3, other1))"
    unfolding composite_def Let_def case_prod_unfold self2_def sd'_def maximum_def st_def nu_def
      other1_def self1_def option.case
    using res by (simp only: simp_thms if_False)
  let ?us = "updates self"
  let ?j = "unat (data self c)"
  have us: "updates self1 = ?us" "updates other1 = updates other" by (simp_all add: self1_def other1_def)
  have dus: "distinct ?us"
    using asc by (metis ascending_updates_def distinct_map strict_sorted_iff)
  have j: "?j < length ?us" by (rule valid_cellsD(1)[OF v c])
  have nu_set: "set nu = set ?us \<union> set (updates other)" "distinct nu"
    by (simp_all add: nu_def us)
  have len_nu: "length nu \<le> 65536" using cap by (simp add: nu_def us)
  have "?us ! ?j \<in> set nu" using j by (simp add: nu_set)
  then obtain i where i: "i < length nu" "nu ! i = ?us ! ?j" by (auto simp: in_set_conv_nth)
  have c1: "in_bounds (bounds self1) c" unfolding self1_def by (rule fit_bounds_old[OF c])
  have d1: "data self1 c = data self c" using c by (simp add: self1_def)
  have "fst st c = of_nat i"
    unfolding st_def us(1)
    by (rule reindex_self[OF dus nu_set(2) j i c1]) (simp add: d1)
  moreover have "sd' c = fst st c"
    using out by (simp add: sd'_def array_assign_from_def get_geometry_cells_def self1_def)
  ultimately have d2: "data self2 c = of_nat i" by (simp add: self2_def)
  have ui: "unat (data self2 c) = i" using i(1) len_nu by (simp add: d2 unat_of_nat)
  have ne: "updates self2 \<noteq> []" using i(1) by (auto simp: self2_def)
  then obtain self3 where s3: "simplify self2 = Inr self3" using simplify_Inr by blast
  with comp comp2 have r: "e = None" "self' = self3" by simp_all
  have c2: "in_bounds (bounds self2) c" using c1 by (simp add: self2_def)
  have us2: "updates self2 = nu" by (simp add: self2_def)
  have v2: "unat (data self2 c) < length (updates self2)" using i(1) by (simp only: ui us2)
  show "e = None" by (rule r)
  show "in_bounds (bounds self') c" using c2 by (simp add: r simplify_fields(1)[OF s3])
  show "unat (data self' c) < length (updates self')"
    unfolding r by (rule simplify_lookup(1)[OF s3 c2 v2])
  have "updates self3 ! unat (data self3 c) = updates self2 ! unat (data self2 c)"
    by (rule simplify_lookup(2)[OF s3 c2 v2])
  then show "updates self' ! unat (data self' c) = updates self ! unat (data self c)"
    using i(2) by (simp only: r ui us2)
qed

lemma composite_self_bounds:
  assumes "resolution self = resolution other"
    and "composite rz other mg self = (e, self', other')"
  shows "bounds self' = bounds (fit_bounds (bounds other) self)"
  using assms
  by (auto simp: composite_def Let_def case_prod_unfold split: sum.splits
        dest: simplify_fields(1))

text \<open>
  A remark on the reindexing loop. The mask for \<open>other_data\<close> is taken from the array
  that the loop is rewriting, so a cell that has been moved to a new index can be moved
  again by a later iteration. \<open>history_d\<close> composited into \<open>history_c\<close> without a mask:
  the cell \<open>(1, 0)\<close>, last touched by \<open>(3, 30)\<close> in \<open>history_d\<close> and never touched in
  \<open>history_c\<close>, ends up referring to \<open>(4, 40)\<close>, and \<open>(3, 30)\<close> is dropped from the
  update list. (The cells of \<open>self\<close> are reindexed through the untouched copy
  \<open>self_data\<close> and are not affected.)
\<close>

lemma composite_reindexes_other_in_place:
  "(case composite cells_rasterizer history_d None history_c of
      (e, self', other') \<Rightarrow>
        (e, updates self', map (\<lambda>c. updates self' ! unat (data self' c)) (cells_of (bounds self'))))
   = (None, [(1, 10), (2, 20), (4, 40)], [(2, 20), (4, 40), (4, 40)])"
  by code_simp

subsection \<open>Persisting and reloading\<close>

lemma length_le_bytes [simp]: "length (le_bytes k v) = k"
  by (induction k arbitrary: v) simp_all

lemma le_value_le_bytes: "v < 256 ^ k \<Longrightarrow> le_value (le_bytes k v) = v"
proof (induction k arbitrary: v)
  case 0
  then show ?case by simp
next
  case (Suc k)
  then have "v div 256 < 256 ^ k" by (simp add: less_mult_imp_div_less mult.commute)
  then have "le_value (le_bytes k (v div 256)) = v div 256" by (rule Suc.IH)
  then show ?case by (simp add: unat_of_nat)
qed

lemma pack_uint_Inr:
  "pack_uint k v = Inr bs \<Longrightarrow> length bs = k \<and> int (le_value bs) = v"
proof -
  assume a: "pack_uint k v = Inr bs"
  then have r: "0 \<le> v" "v < 2 ^ (8 * k)" "bs = le_bytes k (nat v)"
    by (auto simp: pack_uint_def split: if_splits)
  have "(2::int) ^ (8 * k) = int (256 ^ k)" by (simp add: power_mult)
  with r have "nat v < 256 ^ k" by linarith
  then show ?thesis using r by (simp add: le_value_le_bytes)
qed

lemma unpack_pack_all:
  "pack_all k vs = Inr bs \<Longrightarrow> length bs = k * length vs \<and> map int (unpack_all k (length vs) bs) = vs"
proof (induction vs arbitrary: bs)
  case Nil
  then show ?case by simp
next
  case (Cons v vs)
  from Cons.prems obtain b bs' where b: "pack_uint k v = Inr b" "pack_all k vs = Inr bs'" "bs = b @ bs'"
    by (auto split: sum.splits)
  from pack_uint_Inr[OF b(1)] Cons.IH[OF b(2)] show ?case by (simp add: b(3))
qed

lemma zip_pairs_chain: "zip_pairs ns = us" if "map int ns = chain_updates us"
  using that
proof (induction us arbitrary: ns)
  case Nil
  then show ?case by (simp add: chain_updates_def)
next
  case (Cons u us)
  obtain i t where u: "u = (i, t)" by (cases u)
  from Cons.prems obtain a b rest where ns: "ns = a # b # rest" "int a = i" "int b = t"
    "map int rest = chain_updates us"
    by (auto simp: chain_updates_def u map_eq_Cons_conv)
  from Cons.IH[OF ns(4)] show ?case by (simp add: ns u)
qed

lemma length_chain_updates: "length (chain_updates us) = 2 * length us"
  by (induction us) (auto simp: chain_updates_def)

lemma read_write_metadata:
  assumes "write_metadata s = Inr md"
  shows "read_metadata (md @ rest) = Inr (updates s, rest)"
proof -
  from assms obtain n us where w: "pack_uint 2 (int (length (updates s))) = Inr n"
    "pack_all 4 (chain_updates (updates s)) = Inr us" "md = n @ us"
    by (auto simp: write_metadata_def split: sum.splits)
  from pack_uint_Inr[OF w(1)] have n: "length n = 2" "le_value n = length (updates s)" by auto
  from unpack_pack_all[OF w(2)]
  have us: "length us = 8 * length (updates s)"
    "map int (unpack_all 4 (2 * length (updates s)) us) = chain_updates (updates s)"
    by (simp_all add: length_chain_updates)
  have "zip_pairs (unpack_all 4 (2 * length (updates s)) us) = updates s"
    by (rule zip_pairs_chain[OF us(2)])
  then show ?thesis
    by (simp add: read_metadata_def read_bytes_def w(3) n us(1) Let_def)
qed

lemma unpack_cells:
  "unpack_all 2 (length cs) (concat (map (\<lambda>c. le_bytes 2 (unat (d c))) cs) @ rest)
     = map (\<lambda>c. unat ((d c) :: 16 word)) cs"
proof (induction cs)
  case Nil
  then show ?case by simp
next
  case (Cons c cs)
  have "unat (d c) < 2 ^ LENGTH(16)" by (rule unsigned_less)
  then have "unat (d c) < 256 ^ 2" by simp
  then have "le_value (le_bytes 2 (unat (d c))) = unat (d c)" by (rule le_value_le_bytes)
  with Cons show ?case by simp
qed

lemma read_write_indexed:
  assumes "write_indexed s = Inr f"
  shows "\<exists>r. read_indexed f = Inr r \<and> bounds r = bounds s \<and> resolution r = resolution s \<and>
           updates r = updates s \<and> cell_array r = cell_array s"
proof -
  let ?cs = "cells_of (bounds s)"
  let ?cells = "concat (map (\<lambda>c. le_bytes 2 (unat (data s c))) ?cs)"
  from assms obtain md where md: "write_metadata s = Inr md"
    and f: "f = \<lparr>hdr_bounds = bounds s, hdr_resolution = resolution s, hdr_cell_width = 2,
                 body = md @ ?cells\<rparr>"
    by (auto simp: write_indexed_def split: sum.splits)
  have rm: "read_metadata (md @ ?cells) = Inr (updates s, ?cells)"
    by (rule read_write_metadata[OF md])
  have len: "length ?cells = 2 * length ?cs"
    by (induction ?cs) (simp_all add: length_concat comp_def sum_list_triv)
  have vals: "map of_nat (unpack_all 2 (length ?cs) ?cells) = map (data s) ?cs"
    using unpack_cells[of ?cs "data s" "[]"] by (simp add: comp_def)
  define r where "r = \<lparr>resolution = resolution s, bounds = bounds s,
      data = (\<lambda>c. case map_of (zip ?cs (map (data s) ?cs)) c of Some v \<Rightarrow> v | None \<Rightarrow> 0),
      updates = updates s\<rparr>"
  have "read_indexed f = Inr r"
    unfolding f by (simp add: read_indexed_def rm Let_def len vals r_def)
  moreover have "cell_array r = cell_array s"
    by (simp add: cell_array_def r_def map_of_zip_map)
  ultimately show ?thesis by (simp add: r_def)
qed

lemma pack_all_ok:
  "\<forall>v \<in> set vs. 0 \<le> v \<and> v < 2 ^ (8 * k) \<Longrightarrow> \<exists>bs. pack_all k vs = Inr bs"
  by (induction vs) (auto simp: pack_uint_def)

lemma write_metadata_ok:
  assumes "length (updates s) < 65536"
    and "\<forall>u \<in> set (updates s). 0 \<le> fst u \<and> fst u < 2 ^ 32 \<and> 0 \<le> snd u \<and> snd u < 2 ^ 32"
  shows "\<exists>md. write_metadata s = Inr md"
proof -
  have "\<forall>v \<in> set (chain_updates (updates s)). 0 \<le> v \<and> v < 2 ^ (8 * 4)"
    using assms(2) by (auto simp: chain_updates_def)
  from pack_all_ok[OF this] obtain bs where "pack_all 4 (chain_updates (updates s)) = Inr bs" ..
  then show ?thesis using assms(1) by (simp add: write_metadata_def pack_uint_def)
qed

subsection \<open>The first loop, the crop walk and the sublevel walk\<close>

lemma first_pass_dom:
  assumes "first_pass P xs (slg0, ip0, last0, above0) = Inr (slg1, ip1, last1, above1)"
  shows "dom slg1 = dom slg0 \<union> pk ` set xs"
  using assms
proof (induction xs arbitrary: slg0 ip0 last0 above0)
  case Nil
  then show ?case by simp
next
  case (Cons l rest)
  show ?case
  proof (cases "on_top_of_id l \<noteq> None")
    case True
    with Cons.prems have
      "first_pass P rest (slg0(pk l \<mapsto> build_for_level P l above0), ip0, last0,
         sort_key altitude (above0 @ altitudeareas (build_for_level P l above0)))
       = Inr (slg1, ip1, last1, above1)"
      by (simp add: Let_def)
    from Cons.IH[OF this] show ?thesis by auto
  next
    case False
    with Cons.prems obtain i where
      "first_pass P rest (slg0(pk l \<mapsto> build_for_level P l above0),
         (case last0 of None \<Rightarrow> ip0 | Some j \<Rightarrow> ip0(pk l \<mapsto> j)), Some i, above0)
       = Inr (slg1, ip1, last1, above1)"
      by (auto simp: Let_def split: sum.splits)
    from Cons.IH[OF this] show ?thesis by auto
  qed
qed

lemma first_pass_env_dom:
  assumes "first_pass_env P lvls = Inr env"
  shows "dom (single_level_geoms env) = pk ` set lvls"
proof -
  from assms obtain slg1 ip1 last1 above1 where
    f: "first_pass P (rev lvls) (Map.empty, Map.empty, None, []) = Inr (slg1, ip1, last1, above1)"
    and e: "single_level_geoms env = slg1"
    by (auto simp: first_pass_env_def split: sum.splits)
  from first_pass_dom[OF f] e show ?thesis by simp
qed

lemma first_pass_primary_areas:
  assumes "first_pass P xs st = Inr st'" and "l \<in> set xs" and "on_top_of_id l = None"
  shows "\<exists>above. altitudeareas (build_for_level P l above) \<noteq> []"
  using assms
proof (induction xs arbitrary: st)
  case Nil
  then show ?case by simp
next
  case (Cons x rest)
  obtain slg0 ip0 last0 above0 where st: "st = (slg0, ip0, last0, above0)"
    by (cases st) auto
  show ?case
  proof (cases "on_top_of_id x \<noteq> None")
    case True
    with Cons.prems(1) st obtain st1 where r: "first_pass P rest st1 = Inr st'"
      by (auto simp: Let_def)
    from True Cons.prems(2,3) have "l \<in> set rest" by auto
    from Cons.IH[OF r this Cons.prems(3)] show ?thesis .
  next
    case False
    with Cons.prems(1) st obtain i st1 where
      li: "level_interpolator (get_rings P) (altitudeareas (build_for_level P x above0)) = Inr i"
      and r: "first_pass P rest st1 = Inr st'"
      by (auto simp: Let_def split: sum.splits)
    from li have ne: "altitudeareas (build_for_level P x above0) \<noteq> []"
      by (auto simp: level_interpolator_def split: sum.splits if_splits)
    show ?thesis
    proof (cases "l = x")
      case True
      with ne show ?thesis by blast
    next
      case False
      with Cons.prems(2) have "l \<in> set rest" by simp
      from Cons.IH[OF r this Cons.prems(3)] show ?thesis .
    qed
  qed
qed

lemma crop_walk_keep:
  "crop_walk slg xs c n m = Inr res \<Longrightarrow> k \<notin> pk ` set xs \<Longrightarrow> res k = m k"
proof (induction xs arbitrary: c n m)
  case Nil
  then show ?case by simp
next
  case (Cons x xs)
  from Cons.prems(2) have kx: "k \<noteq> pk x" and kxs: "k \<notin> pk ` set xs" by auto
  from Cons.prems(1) obtain g where g: "slg (pk x) = Some g"
    by (auto split: option.splits)
  define n' where "n' = (if holes g \<noteq> None then n + 1 else n)"
  define m' where "m' = m(pk x \<mapsto> Cropper (if n' > 1 then c else None))"
  have mk: "m' k = m k" using kx by (simp add: m'_def)
  from Cons.prems(1) g have
    "res = m' \<or> (\<exists>c'. crop_walk slg xs c' n' m' = Inr res)"
    by (auto simp: Let_def n'_def m'_def split: option.splits if_splits)
  then show ?case
  proof
    assume "res = m'"
    with mk show ?thesis by simp
  next
    assume "\<exists>c'. crop_walk slg xs c' n' m' = Inr res"
    then obtain c' where "crop_walk slg xs c' n' m' = Inr res" ..
    from Cons.IH[OF this kxs] mk show ?thesis by simp
  qed
qed

lemma crop_walk_total:
  "\<forall>a \<in> set xs. slg (pk a) \<noteq> None \<Longrightarrow> \<exists>res. crop_walk slg xs c n m = Inr res"
proof (induction xs arbitrary: c n m)
  case Nil
  then show ?case by simp
next
  case (Cons x xs)
  then obtain g where g: "slg (pk x) = Some g" by auto
  from Cons.prems have r: "\<forall>a \<in> set xs. slg (pk a) \<noteq> None" by simp
  show ?case
  proof (cases "holes g")
    case None
    with g Cons.IH[OF r] show ?thesis by (simp add: Let_def)
  next
    case (Some h)
    with g Cons.IH[OF r] show ?thesis by (simp add: Let_def)
  qed
qed

lemma crop_walk_no_holes:
  assumes "\<forall>a \<in> set A. \<exists>g. slg (pk a) = Some g \<and> holes g = None"
  shows "crop_walk slg (A @ rest) c n m =
         crop_walk slg rest c n
           (fold (\<lambda>a m. m(pk a \<mapsto> Cropper (if n > 1 then c else None))) A m)"
  using assms
proof (induction A arbitrary: m)
  case Nil
  then show ?case by simp
next
  case (Cons a A)
  then obtain g where g: "slg (pk a) = Some g" "holes g = None" by auto
  from Cons.prems have r: "\<forall>a \<in> set A. \<exists>g. slg (pk a) = Some g \<and> holes g = None" by simp
  show ?case using g Cons.IH[OF r] by (simp add: Let_def)
qed

lemma fold_cropper_lookup:
  "fold (\<lambda>a m. m(pk a \<mapsto> v)) A m k = (if k \<in> pk ` set A then Some v else m k)"
  by (induction A arbitrary: m) auto

lemma crop_walk_two_holes:
  fixes slg :: "int \<rightharpoonup> ('p, 'm) level_geometries"
  assumes nh: "\<forall>a \<in> set (A @ M @ N). \<exists>g. slg (pk a) = Some g \<and> holes g = None"
    and hT: "slg (pk T) = Some gT" "holes gT = Some H1"
    and hS: "slg (pk S) = Some gS" "holes gS = Some H2"
    and ne: "H1 \<noteq> {}"
    and tot: "\<forall>a \<in> set (B # R). slg (pk a) \<noteq> None"
    and d: "distinct (map pk (A @ T # M @ S # N @ B # R))"
  shows "\<exists>res. crop_walk slg (A @ T # M @ S # N @ B # R) None 0 Map.empty = Inr res \<and>
           res (pk T) = Some (Cropper None) \<and>
           res (pk S) = Some (Cropper (Some H1)) \<and>
           res (pk B) = (if H1 \<inter> H2 = {} then None else Some (Cropper (Some (H1 \<inter> H2)))) \<and>
           (\<forall>a \<in> set (A @ M). res (pk a) = Some (Cropper None)) \<and>
           (\<forall>a \<in> set N. res (pk a) =
              (if H1 \<inter> H2 = {} then None else Some (Cropper (Some (H1 \<inter> H2))))) \<and>
           (H1 \<inter> H2 = {} \<longrightarrow> (\<forall>a \<in> set R. res (pk a) = None))"
proof -
  let ?walk = "crop_walk slg (A @ T # M @ S # N @ B # R) None 0 Map.empty"
  define mA where "mA = fold (\<lambda>a m. m(pk a \<mapsto> Cropper None)) A (Map.empty :: int \<rightharpoonup> 'p cropper)"
  define mT where "mT = mA(pk T \<mapsto> Cropper None)"
  define mM where "mM = fold (\<lambda>a m. m(pk a \<mapsto> Cropper None)) M mT"
  define mS where "mS = mM(pk S \<mapsto> Cropper (Some H1))"
  define mN where "mN = fold (\<lambda>a m. m(pk a \<mapsto> Cropper (Some (H1 \<inter> H2)))) N mS"
  define mB where "mB = mN(pk B \<mapsto> Cropper (Some (H1 \<inter> H2)))"
  have nhA: "\<forall>a \<in> set A. \<exists>g. slg (pk a) = Some g \<and> holes g = None"
    and nhM: "\<forall>a \<in> set M. \<exists>g. slg (pk a) = Some g \<and> holes g = None"
    and nhN: "\<forall>a \<in> set N. \<exists>g. slg (pk a) = Some g \<and> holes g = None"
    using nh by auto
  have 1: "?walk = crop_walk slg (T # M @ S # N @ B # R) None 0 mA"
    unfolding mA_def using crop_walk_no_holes[OF nhA, of "T # M @ S # N @ B # R" None 0]
    by simp
  have 2: "?walk = crop_walk slg (M @ S # N @ B # R) (Some H1) 1 mT"
    unfolding 1 mT_def using hT ne by (simp add: Let_def)
  have 3: "?walk = crop_walk slg (S # N @ B # R) (Some H1) 1 mM"
    unfolding 2 mM_def using crop_walk_no_holes[OF nhM, of "S # N @ B # R" "Some H1" 1]
    by simp
  have looksS: "mS (pk T) = Some (Cropper None)" "mS (pk S) = Some (Cropper (Some H1))"
    "\<forall>a \<in> set (A @ M). mS (pk a) = Some (Cropper None)"
    "\<forall>a \<in> set (N @ B # R). mS (pk a) = None"
    using d unfolding mS_def mM_def mT_def mA_def
    by (auto simp: fold_cropper_lookup image_iff)
  show ?thesis
  proof (cases "H1 \<inter> H2 = {}")
    case True
    have "?walk = Inr mS"
      unfolding 3 mS_def using hS True by (simp add: Let_def)
    with looksS True show ?thesis by simp
  next
    case False
    have 4: "?walk = crop_walk slg (N @ B # R) (Some (H1 \<inter> H2)) 2 mS"
      unfolding 3 mS_def using hS False by (simp add: Let_def numeral_2_eq_2)
    have 5: "?walk = crop_walk slg (B # R) (Some (H1 \<inter> H2)) 2 mN"
      unfolding 4 mN_def using crop_walk_no_holes[OF nhN, of "B # R" "Some (H1 \<inter> H2)" 2]
      by simp
    from tot obtain gB where gB: "slg (pk B) = Some gB" by auto
    from tot have totR: "\<forall>a \<in> set R. slg (pk a) \<noteq> None" by simp
    have 6: "?walk = Inr mB \<or> (\<exists>c' n'. ?walk = crop_walk slg R c' n' mB)"
      unfolding 5 mB_def using gB by (auto simp: Let_def split: option.splits)
    then obtain res where res: "?walk = Inr res"
      using crop_walk_total[OF totR] by metis
    have keepR: "res k = mB k" if "k \<notin> pk ` set R" for k
      using 6 res crop_walk_keep[OF _ that] by (metis sum.inject(2))
    have dR: "pk T \<notin> pk ` set R" "pk S \<notin> pk ` set R" "pk B \<notin> pk ` set R"
      "\<forall>a \<in> set (A @ M). pk a \<notin> pk ` set R" "\<forall>a \<in> set N. pk a \<notin> pk ` set R"
      using d by auto
    have looks: "mB (pk T) = Some (Cropper None)" "mB (pk S) = Some (Cropper (Some H1))"
      "mB (pk B) = Some (Cropper (Some (H1 \<inter> H2)))"
      "\<forall>a \<in> set (A @ M). mB (pk a) = Some (Cropper None)"
      "\<forall>a \<in> set N. mB (pk a) = Some (Cropper (Some (H1 \<inter> H2)))"
      using d unfolding mB_def mN_def mS_def mM_def mT_def mA_def
      by (auto simp: fold_cropper_lookup image_iff)
    have "res (pk T) = Some (Cropper None)" using keepR dR looks by simp
    moreover have "res (pk S) = Some (Cropper (Some H1))" using keepR dR looks by simp
    moreover have "res (pk B) = Some (Cropper (Some (H1 \<inter> H2)))" using keepR dR looks by simp
    moreover have "\<forall>a \<in> set (A @ M). res (pk a) = Some (Cropper None)"
      using keepR dR(4) looks(4) by simp
    moreover have "\<forall>a \<in> set N. res (pk a) = Some (Cropper (Some (H1 \<inter> H2)))"
      using keepR dR(5) looks(5) by simp
    ultimately show ?thesis using res False by simp
  qed
qed

lemma render_walk_levels:
  assumes "render_walk env lvl lct sublevels (rd0, mh0) = Inr (rd, mh)"
    and "\<forall>sl \<in> set sublevels. lct (pk sl) \<noteq> None"
  shows "levels rd = levels rd0 @
           map (\<lambda>sl. crop_geoms env lvl sl (the (lct (pk sl)))
                        (the (single_level_geoms env (pk sl))))
             (filter (\<lambda>sl. \<not> contributes_nothing (the (lct (pk sl)))
                               (the (single_level_geoms env (pk sl))))
                sublevels)"
  using assms
proof (induction sublevels arbitrary: rd0 mh0)
  case Nil
  then show ?case by simp
next
  case (Cons sl rest)
  from Cons.prems(2) obtain crop_to where Some: "lct (pk sl) = Some crop_to" by auto
  from Cons.prems(2) have all: "\<forall>sl \<in> set rest. lct (pk sl) \<noteq> None" by simp
  from Cons.prems(1) Some obtain old_geoms where og: "single_level_geoms env (pk sl) = Some old_geoms"
    by (auto split: option.splits)
  obtain raised mh1 where cs: "composite_sublevel env lvl sl crop_to mh0 = (raised, mh1)"
    by (cases "composite_sublevel env lvl sl crop_to mh0")
  with Cons.prems(1) Some og have r: "raised = None" by (auto split: option.splits)
  show ?case
  proof (cases "contributes_nothing crop_to old_geoms")
    case True
    with Cons.prems(1) Some og cs r have "render_walk env lvl lct rest (rd0, mh1) = Inr (rd, mh)"
      by simp
    from Cons.IH[OF this all] show ?thesis using Some og True by simp
  next
    case False
    define rd1 where "rd1 = rd0\<lparr>
        levels := levels rd0 @ [crop_geoms env lvl sl crop_to old_geoms],
        access_restriction_affected :=
          fold (\<lambda>(access_restriction, new_area). setdefault_append access_restriction new_area)
            (crop_restricted crop_to (restricted_spaces_indoors old_geoms))
            (access_restriction_affected rd0)\<rparr>"
    from Cons.prems(1) Some og cs r False
    have "render_walk env lvl lct rest (rd1, mh1) = Inr (rd, mh)"
      by (simp add: rd1_def)
    from Cons.IH[OF this all] show ?thesis using Some og False by (simp add: rd1_def)
  qed
qed

lemma render_levels_saved:
  assumes "render_levels env lvls todo saved = (None, saved')"
  shows "set saved \<subseteq> set saved'"
  using assms
proof (induction todo arbitrary: saved)
  case Nil
  then show ?case by simp
next
  case (Cons l rest)
  show ?case
  proof (cases "on_top_of_id l \<noteq> None")
    case True
    with Cons.prems have "render_levels env lvls rest saved = (None, saved')" by simp
    from Cons.IH[OF this] show ?thesis .
  next
    case False
    with Cons.prems obtain rd mh where
      "render_levels env lvls rest (saved @ [(pk l, rd, mh)]) = (None, saved')"
      by (auto split: sum.splits)
    from Cons.IH[OF this] show ?thesis by simp
  qed
qed

lemma render_levels_level:
  assumes "render_levels env lvls todo saved = (None, saved')"
    and "lvl \<in> set todo" and "on_top_of_id lvl = None"
  shows "\<exists>rd mh. render_level env lvls lvl = Inr (rd, mh) \<and> (pk lvl, rd, mh) \<in> set saved'"
  using assms
proof (induction todo arbitrary: saved)
  case Nil
  then show ?case by simp
next
  case (Cons l rest)
  show ?case
  proof (cases "on_top_of_id l \<noteq> None")
    case True
    with Cons.prems(1) have r: "render_levels env lvls rest saved = (None, saved')" by simp
    from True Cons.prems(2,3) have "lvl \<in> set rest" by auto
    from Cons.IH[OF r this Cons.prems(3)] show ?thesis .
  next
    case False
    with Cons.prems(1) obtain rd mh where
      l: "render_level env lvls l = Inr (rd, mh)"
      and r: "render_levels env lvls rest (saved @ [(pk l, rd, mh)]) = (None, saved')"
      by (auto split: sum.splits)
    show ?thesis
    proof (cases "lvl = l")
      case True
      from render_levels_saved[OF r] have "(pk l, rd, mh) \<in> set saved'" by auto
      with l True show ?thesis by blast
    next
      case False
      with Cons.prems(2) have "lvl \<in> set rest" by simp
      from Cons.IH[OF r this Cons.prems(3)] show ?thesis .
    qed
  qed
qed

text \<open>
  Remark, outside the claims. The second loop walks the sublevels from the lowest up and
  leaves at the first one without a cropper. With the disjoint holes of the example, level
  1 has no cropper when level 3 is rendered, and the render data of level 3 is empty, the
  level itself included. A primary level without altitude areas makes the first loop
  raise \<open>ValueError\<close>.
\<close>

lemma missing_cropper_renders_nothing:
  "(case rebuild params_disjoint example_levels of
      (raised, saved) \<Rightarrow> (raised, map (\<lambda>(k, render_data, map_history).
                                         (k, map pk (levels render_data))) saved))
   = (None, [(1, [1]), (2, [1, 2]), (3, [])])"
  by code_simp

lemma no_altitude_areas_raises:
  "fst (rebuild (params_overlap\<lparr>build_for_level :=
          (\<lambda>lvl above. (build_for_level params_overlap lvl above)\<lparr>altitudeareas := []\<rparr>)\<rparr>)
        example_levels) = Some ValueError"
  by code_simp

subsection \<open>The spatial index\<close>

lemma fold_union: "fold (\<lambda>g acc. acc \<union> f g) gs A = A \<union> \<Union> (f ` set gs)"
  by (induction gs arbitrary: A) auto

lemma rtree_intersection_contract:
  "rtree_intersection idx q = contract_intersection (rtree_entries idx) q"
proof (induction q)
  case (Simple b)
  show ?case by (fastforce simp: contract_intersection_def image_iff)
next
  case (Multi geoms)
  have "rtree_intersection idx (Multi geoms) = \<Union> (rtree_intersection idx ` set geoms)"
    by (simp add: fold_union)
  also have "\<dots> = \<Union> ((contract_intersection (rtree_entries idx)) ` set geoms)"
    using Multi by simp
  also have "\<dots> = contract_intersection (rtree_entries idx) (Multi geoms)"
    unfolding contract_intersection_def part_boxes.simps set_concat set_map by blast
  finally show ?case .
qed

lemma rtree_insert_boxes: "rtree_insert v g idx = fold (add_box v) (part_boxes g) idx"
proof (induction g arbitrary: idx)
  case (Simple b)
  show ?case by (simp add: add_box_def)
next
  case (Multi geoms)
  have "fold (rtree_insert v) gs idx = fold (add_box v) (concat (map part_boxes gs)) idx"
    if "set gs \<subseteq> set geoms" for gs idx
    using that by (induction gs arbitrary: idx) (simp_all add: Multi)
  then show ?case by simp
qed

lemma map_of_setdefault_append:
  "map_of (setdefault_append k b xs) =
     (map_of xs)(k \<mapsto> (case map_of xs k of None \<Rightarrow> [b] | Some bs \<Rightarrow> bs @ [b]))"
  by (induction xs) (auto simp: fun_eq_iff)

lemma tracked_add_box: "tracked idx \<Longrightarrow> tracked (add_box v b idx)"
  unfolding tracked_def add_box_def
  by (auto simp: map_of_setdefault_append boxes_of_def)

lemma fold_add_box:
  "tracked idx \<Longrightarrow> tracked (fold (add_box v) bs idx) \<and>
     rtree_entries (fold (add_box v) bs idx) = rtree_entries idx @ map (Pair v) bs"
proof (induction bs arbitrary: idx)
  case Nil
  then show ?case by simp
next
  case (Cons b bs)
  from Cons.IH[OF tracked_add_box[OF Cons.prems, of v b]] show ?case
    by (simp add: add_box_def)
qed

lemma fold_remove1_other:
  "v' \<noteq> v \<Longrightarrow> fold (\<lambda>b. remove1 (v, b)) bs ((v', b') # es)
     = (v', b') # fold (\<lambda>b. remove1 (v, b)) bs es"
  by (induction bs arbitrary: es) simp_all

lemma fold_remove1_boxes:
  "fold (\<lambda>b. remove1 (v, b)) (boxes_of v es) es = filter (\<lambda>(v', b). v' \<noteq> v) es"
proof (induction es)
  case Nil
  then show ?case by (simp add: boxes_of_def)
next
  case (Cons e es)
  obtain v' b' where e: "e = (v', b')" by (cases e)
  show ?case
  proof (cases "v' = v")
    case True
    then show ?thesis using Cons by (simp add: e boxes_of_def)
  next
    case False
    then have "boxes_of v (e # es) = boxes_of v es" by (simp add: e boxes_of_def)
    then show ?thesis using Cons False by (simp add: e fold_remove1_other)
  qed
qed

lemma boxes_of_filter_other:
  "boxes_of w (filter (\<lambda>(v', b). v' \<noteq> v) es) = (if w = v then [] else boxes_of w es)"
  by (induction es) (auto simp: boxes_of_def)

lemma rtree_delete_tracked:
  assumes "tracked idx" "rtree_delete v idx = Inr idx'"
  shows "tracked idx' \<and> rtree_entries idx' = filter (\<lambda>(v', b). v' \<noteq> v) (rtree_entries idx)"
proof -
  from assms(2) obtain bs where bs: "map_of (rtree_bounds idx) v = Some bs"
    and idx': "idx' = idx\<lparr>rtree_bounds := AList.delete v (rtree_bounds idx),
                          rtree_entries := fold (\<lambda>b entries. remove1 (v, b) entries) bs
                                             (rtree_entries idx)\<rparr>"
    by (auto simp: rtree_delete_def split: option.splits)
  from assms(1) bs have "bs = boxes_of v (rtree_entries idx)"
    unfolding tracked_def by (metis option.distinct(1) option.inject)
  then have e: "rtree_entries idx' = filter (\<lambda>(v', b). v' \<noteq> v) (rtree_entries idx)"
    by (simp add: idx' fold_remove1_boxes)
  have "tracked idx'"
    unfolding tracked_def e boxes_of_filter_other
    using assms(1) by (auto simp: idx' tracked_def AList.delete_conv')
  with e show ?thesis by simp
qed

lemma rtree_run_registered:
  assumes "tracked idx" "run_calls rtree_call calls idx = Inr idx'"
  shows "tracked idx' \<and> rtree_entries idx' = fold registered_call calls (rtree_entries idx)"
  using assms
proof (induction calls arbitrary: idx)
  case Nil
  then show ?case by simp
next
  case (Cons c calls)
  from Cons.prems(2) obtain idx1 where s: "rtree_call c idx = Inr idx1"
    "run_calls rtree_call calls idx1 = Inr idx'"
    by (auto split: sum.splits)
  have "tracked idx1 \<and> rtree_entries idx1 = registered_call c (rtree_entries idx)"
  proof (cases c)
    case (Insert v g)
    with s(1) have "idx1 = fold (add_box v) (part_boxes g) idx" by (simp add: rtree_insert_boxes)
    with fold_add_box[OF Cons.prems(1)] show ?thesis by (simp add: Insert)
  next
    case (Delete v)
    with s(1) rtree_delete_tracked[OF Cons.prems(1)] show ?thesis by simp
  qed
  with Cons.IH[OF _ s(2)] show ?case by simp
qed

lemma fallback_run_keys:
  assumes "run_calls fallback_call calls idx = Inr idx'"
    and "fst ` set reg \<subseteq> fst ` set (objects idx)"
  shows "fst ` set (fold registered_call calls reg) \<subseteq> fst ` set (objects idx')"
  using assms
proof (induction calls arbitrary: idx reg)
  case Nil
  then show ?case by simp
next
  case (Cons c calls)
  from Cons.prems(1) obtain idx1 where s: "fallback_call c idx = Inr idx1"
    "run_calls fallback_call calls idx1 = Inr idx'"
    by (auto split: sum.splits)
  have "fst ` set (registered_call c reg) \<subseteq> fst ` set (objects idx1)"
  proof (cases c)
    case (Insert v g)
    with s(1) have "objects idx1 = AList.update v g (objects idx)"
      by (auto simp: fallback_insert_def)
    then have "fst ` set (objects idx1) = {v} \<union> fst ` set (objects idx)"
      by (simp add: AList.dom_update)
    then show ?thesis using Cons.prems(2) by (auto simp: Insert image_Un)
  next
    case (Delete v)
    with s(1) have "objects idx1 = AList.delete v (objects idx)"
      by (auto simp: fallback_delete_def split: option.splits)
    then have "fst ` set (objects idx1) = fst ` set (objects idx) - {v}"
      using AList.delete_keys[of v "objects idx"] by (simp flip: set_map)
    then show ?thesis using Cons.prems(2) by (force simp: Delete)
  qed
  from Cons.IH[OF s(2) this] show ?case by simp
qed

lemma fallback_run_distinct:
  assumes "run_calls fallback_call calls idx = Inr idx'" and "distinct (map fst (objects idx))"
  shows "distinct (map fst (objects idx'))"
  using assms
proof (induction calls arbitrary: idx)
  case Nil
  then show ?case by simp
next
  case (Cons c calls)
  from Cons.prems(1) obtain idx1 where s: "fallback_call c idx = Inr idx1"
    "run_calls fallback_call calls idx1 = Inr idx'"
    by (auto split: sum.splits)
  have "distinct (map fst (objects idx1))"
    using s(1) Cons.prems(2)
    by (cases c) (auto simp: fallback_insert_def fallback_delete_def AList.distinct_update
          AList.distinct_delete split: option.splits)
  from Cons.IH[OF s(2) this] show ?case .
qed

subsection \<open>The keys of a tile request\<close>

lemma request_keys_equal:
  assumes m: "match_path U (path_info e1) = match_path U (path_info e2)"
    and k1: "request_keys U sh self e1 = (Inr (Inr k1), s1)"
    and k2: "request_keys U sh self e2 = (Inr (Inr k2), s2)"
    and p: "decoded_permissions U (tile_secret self) e1 \<inter> tile_restrictions k1
          = decoded_permissions U (tile_secret self) e2 \<inter> tile_restrictions k1"
    and t: "(access_token U e1 = None \<longleftrightarrow> access_token U e2 = None)
            \<or> build_access_cache_key U {} = ''0''"
  shows "k1 = k2 \<and> s1 = s2"
proof -
  obtain level zoom x y where mp: "match_path U (path_info e1) = Some (level, zoom, x, y)"
    using k1 by (auto simp: request_keys_def split: option.splits)
  then have mp2: "match_path U (path_info e2) = Some (level, zoom, x, y)" using m by simp
  have z: "- 2 \<le> zoom \<and> zoom \<le> 5"
    using k1 mp by (auto simp: request_keys_def split: if_splits)
  obtain package self' where g: "get_cache_package sh self = (None, Some package, self')"
    using k1 mp z
    by (auto simp: request_keys_def split: prod.splits option.splits)
  obtain minx miny maxx maxy where b: "get_tile_bounds U zoom x y = (minx, miny, maxx, maxy)"
    by (cases "get_tile_bounds U zoom x y")
  have bv: "bounds_valid package minx miny maxx maxy"
    using k1 mp z g b by (auto simp: request_keys_def split: if_splits)
  obtain level_data where ld: "package_levels package level = Some level_data"
    using k1 mp z g b bv by (auto simp: request_keys_def split: option.splits)
  obtain last_upd where lu: "last_update (history level_data) minx miny maxx maxy = Inr last_upd"
    using k1 mp z g b bv ld by (auto simp: request_keys_def split: sum.splits)
  have sec: "tile_secret self' = tile_secret self"
    using g by (auto simp: get_cache_package_def Let_def split: option.splits if_splits)
  let ?R = "set (restrictions level_data minx miny maxx maxy)"
  let ?key = "\<lambda>env. case access_token U env of None \<Rightarrow> ''0''
       | Some cookie \<Rightarrow> build_access_cache_key U
           (parse_tile_access_cookie U cookie (tile_secret self) \<inter> ?R)"
  let ?k = "\<lambda>env. \<lparr>tile_level = level, tile_zoom = zoom, tile_x = x, tile_y = y,
       tile_restrictions = ?R, access_cache_key = ?key env,
       tile_etag = build_tile_etag U level zoom x y (build_base_cache_key U last_upd) (?key env)
                     (tile_secret self)\<rparr>"
  have r1: "k1 = ?k e1" "s1 = self'"
    using k1 by (auto simp add: request_keys_def mp z g b bv ld lu sec Let_def
        cong: option.case_cong)
  have r2: "k2 = ?k e2" "s2 = self'"
    using k2 by (auto simp add: request_keys_def mp2 z g b bv ld lu sec Let_def
        cong: option.case_cong)
  have R: "tile_restrictions k1 = ?R" by (simp add: r1)
  have "?key e1 = ?key e2"
    using p t unfolding R decoded_permissions_def
    by (auto split: option.splits)
  then show ?thesis by (simp add: r1 r2)
qed

lemma example_last_update: "last_update history_base 0 0 1 1 = Inr (1, 10)"
  by (simp add: last_update_def get_rect_def history_base_def nth_or_raise_def upto_rec1)

lemma example_request_keys:
  "request_keys example_utils example_shared example_server (example_request tok)
   = (Inr (Inr \<lparr>tile_level = 1, tile_zoom = 0, tile_x = 0, tile_y = 0,
        tile_restrictions = {7},
        access_cache_key =
          (if tok = [] then ''0'' else if tok = ''a'' \<or> tok = ''b'' then ''7'' else ''0''),
        tile_etag = ''b'' @
          (if tok = [] then ''0'' else if tok = ''a'' \<or> tok = ''b'' then ''7'' else ''0'')
          @ ''s''\<rparr>), example_server)"
  by (auto simp add: request_keys_def example_utils_def example_shared_def example_server_def
        example_request_def example_package_def get_cache_package_def access_token_def
        example_last_update)

lemma example_request_padded_keys:
  "request_keys example_utils example_shared example_server (example_request_padded tok)
   = (Inr (Inr \<lparr>tile_level = 1, tile_zoom = 0, tile_x = 0, tile_y = 0,
        tile_restrictions = {7},
        access_cache_key =
          (if tok = [] then ''0'' else if tok = ''a'' \<or> tok = ''b'' then ''7'' else ''0''),
        tile_etag = ''b'' @
          (if tok = [] then ''0'' else if tok = ''a'' \<or> tok = ''b'' then ''7'' else ''0'')
          @ ''s''\<rparr>), example_server)"
  by (auto simp add: request_keys_def example_utils_def example_shared_def example_server_def
        example_request_padded_def example_package_def get_cache_package_def access_token_def
        example_last_update)

subsection \<open>The background refresh\<close>

lemma load_cache_package_no_download:
  assumes "downloaded_package w = None"
  shows "load_cache_package w (self, sh) = (False, self, sh)
       \<or> (\<exists>etag content. fetch w = FetchResponse 304 etag content \<and> cache_package self \<noteq> None \<and>
            cache_write_ok w \<and>
            load_cache_package w (self, sh)
              = (True, self, sh\<lparr>package_pointer := cache_package_filename self\<rparr>))"
  using assms
  by (auto simp: load_cache_package_def downloaded_package_def split: fetch_result.splits)

lemma load_cache_package_downloaded:
  assumes "downloaded_package w = Some package"
  shows "load_cache_package w (self, sh) =
           (if file_write_ok w \<and> cache_write_ok w
            then (True, self\<lparr>cache_package := Some package,
                              cache_package_etag := (case fetch w of
                                  FetchRaises \<Rightarrow> None | FetchResponse st etag c \<Rightarrow> etag),
                              cache_package_filename := Some (now_filename w)\<rparr>,
                  sh\<lparr>files := (files sh)(now_filename w \<mapsto> package),
                     package_pointer := Some (now_filename w)\<rparr>)
            else (False, self\<lparr>cache_package := Some package, cache_package_etag := None,
                               cache_package_filename := Some (now_filename w)\<rparr>,
                  if file_write_ok w then sh\<lparr>files := (files sh)(now_filename w \<mapsto> package)\<rparr>
                  else sh))"
  using assms
  by (auto simp: load_cache_package_def downloaded_package_def Let_def
        split: fetch_result.splits if_splits)

subsection \<open>Claim C8\<close>

text \<open>
  C8. For every raster history store (one that has its base update, so that the call does
  not raise), \<open>simplify\<close> is idempotent: it returns a store on which a second call
  changes nothing, neither the update list nor any cell. The update at index 0 is kept as
  the update at index 0, whether or not a cell refers to it.
\<close>

theorem simplify_idempotent:
  assumes "updates s \<noteq> []"
  shows "\<exists>s1. simplify s = Inr s1 \<and> simplify s1 = Inr s1 \<and>
              updates s1 \<noteq> [] \<and> updates s1 ! 0 = updates s ! 0"
proof -
  obtain s1 where s1: "simplify s = Inr s1" using simplify_Inr[OF assms] by blast
  have "updates s1 = map (nth (updates s)) (kept_idx s)" by (rule simplify_fields(3)[OF s1])
  moreover have "kept_idx s \<noteq> []" "kept_idx s ! 0 = 0" using kept_idx_0[OF assms] by auto
  ultimately have "updates s1 \<noteq> []" "updates s1 ! 0 = updates s ! 0" by (simp_all add: nth_map)
  with s1 simplify_idem[OF s1] show ?thesis by blast
qed

text \<open>
  The store \<open>history_unref\<close>: the base update \<open>(1, 10)\<close> stays first although no cell
  refers to it, the unreferenced \<open>(2, 20)\<close> is dropped, and a second call returns the
  same store.
\<close>

theorem simplify_idempotent_witness:
  "updates history_unref \<noteq> [] \<and>
   (\<exists>s1. simplify history_unref = Inr s1 \<and> simplify s1 = Inr s1 \<and>
          updates s1 = [(1, 10), (3, 30)] \<and> map (data s1) (cells_of (bounds s1)) = [1, 1])"
proof -
  have ne: "updates history_unref \<noteq> []" by (simp add: history_unref_def)
  have ev: "case simplify history_unref of Inl e \<Rightarrow> False
            | Inr s \<Rightarrow> updates s = [(1, 10), (3, 30)] \<and> map (data s) (cells_of (bounds s)) = [1, 1]"
    by (simp add: simplify_def history_unref_def enumerate_eq_zip array_any_def array_eq_def
          array_assign_def upt_rec upto_rec1)
  from simplify_idempotent[OF ne] obtain s1 where
    "simplify history_unref = Inr s1" "simplify s1 = Inr s1" by blast
  with ev ne show ?thesis by auto
qed

subsection \<open>Claim C2\<close>

text \<open>
  C2. Take a well-formed store with room for two more updates in its 16-bit cells, two
  updates \<open>u1\<close>, \<open>u2\<close> with \<open>u1.id < u2.id\<close>, two geometries that both cover a
  cell \<open>c\<close>, and a rectangle that contains \<open>c\<close>. Then \<open>add_geometry\<close> with
  \<open>u1\<close> and then with \<open>u2\<close> both return, and \<open>last_update\<close> on the rectangle
  returns \<open>u2\<close>. On a rectangle that contains no cell of the grid, \<open>last_update\<close>
  returns the update at index 0.
\<close>

theorem last_update_after_add_geometry:
  assumes "valid_cells s" and "length (updates s) + 2 \<le> 65536"
    and "fst u1 < fst u2"
    and "c \<in> set (rz (resolution s) g1)" and "c \<in> set (rz (resolution s) g2)"
    and "cell_in_rect (resolution s) minx miny maxx maxy c"
  shows "(\<exists>s1 s2. add_geometry rz g1 u1 s = Inr s1 \<and> add_geometry rz g2 u2 s1 = Inr s2 \<and>
            last_update s2 minx miny maxx maxy = Inr u2) \<and>
         (get_rect s minx' miny' maxx' maxy' = [] \<longrightarrow>
            last_update s minx' miny' maxx' maxy' = Inr (updates s ! 0))"
proof -
  from add_geometry_valid[OF assms(1), of rz g1 u1] assms(2)
  obtain s1 where s1: "add_geometry rz g1 u1 s = Inr s1" "valid_cells s1"
    "length (updates s1) \<le> length (updates s) + 1" "resolution s1 = resolution s"
    by auto
  from add_geometry_valid[OF s1(2), of rz g2 u2] s1(3) assms(2)
  obtain s2 where s2: "add_geometry rz g2 u2 s1 = Inr s2" "valid_cells s2"
    "last (updates s2) = u2" "resolution s2 = resolution s1"
    "\<forall>c \<in> set (rz (resolution s1) g2).
        in_bounds (bounds s2) c \<and> unat (data s2 c) = length (updates s2) - 1"
    by auto
  have "in_bounds (bounds s2) c" "unat (data s2 c) = length (updates s2) - 1"
    using s2(5) assms(5) s1(4) by auto
  from last_update_max[OF s2(2) this(1) _ this(2), of minx miny maxx maxy] assms(6)
  have "last_update s2 minx miny maxx maxy = Inr u2" by (simp add: s2 s1)
  moreover have "updates s \<noteq> []" using assms(1) by (rule valid_cellsD)
  ultimately show ?thesis using s1(1) s2(1) last_update_empty by blast
qed

text \<open>
  On \<open>history_base\<close>: the update \<open>(2, 20)\<close> on the cell \<open>(0, 0)\<close>, then
  \<open>(3, 30)\<close> on both cells; the rectangle from \<open>(0, 0)\<close> to \<open>(1, 1)\<close> contains the
  cell \<open>(0, 0)\<close>, the rectangle from \<open>(5, 5)\<close> to \<open>(6, 6)\<close> contains no cell.
\<close>

theorem last_update_after_add_geometry_witness:
  "valid_cells history_base \<and> length (updates history_base) + 2 \<le> 65536 \<and>
   fst ((2, 20) :: update) < fst ((3, 30) :: update) \<and>
   (0, 0) \<in> set (cells_rasterizer (resolution history_base) [(0, 0)]) \<and>
   (0, 0) \<in> set (cells_rasterizer (resolution history_base) [(0, 0), (1, 0)]) \<and>
   cell_in_rect (resolution history_base) 0 0 1 1 (0, 0) \<and>
   (\<exists>s1 s2. add_geometry cells_rasterizer [(0, 0)] (2, 20) history_base = Inr s1 \<and>
            add_geometry cells_rasterizer [(0, 0), (1, 0)] (3, 30) s1 = Inr s2 \<and>
            last_update s2 0 0 1 1 = Inr (3, 30)) \<and>
   get_rect history_base 5 5 6 6 = [] \<and>
   last_update history_base 5 5 6 6 = Inr (1, 10)"
proof -
  have h: "valid_cells history_base" "length (updates history_base) + 2 \<le> 65536"
    "fst ((2, 20) :: update) < fst ((3, 30) :: update)"
    "(0, 0) \<in> set (cells_rasterizer (resolution history_base) [(0, 0)])"
    "(0, 0) \<in> set (cells_rasterizer (resolution history_base) [(0, 0), (1, 0)])"
    "cell_in_rect (resolution history_base) 0 0 1 1 (0, 0)"
    by (simp_all add: valid_cells_def history_base_def cells_rasterizer_def upto_rec1)
  have e: "get_rect history_base 5 5 6 6 = []"
    by (simp add: get_rect_def history_base_def upto_rec1)
  have u: "updates history_base ! 0 = (1, 10)" by (simp add: history_base_def)
  from last_update_after_add_geometry[where rz = cells_rasterizer and s = history_base
      and ?g1.0 = "[(0, 0)]" and ?g2.0 = "[(0, 0), (1, 0)]" and c = "(0, 0)"
      and ?u1.0 = "(2, 20)" and ?u2.0 = "(3, 30)", OF h, of 5 5 6 6]
    h e u show ?thesis by simp
qed

subsection \<open>Claim C3\<close>

text \<open>
  C3. Let \<open>self\<close> and \<open>other\<close> be stores of equal resolution, \<open>self\<close> well-formed
  (every cell holds an index into its update list, which is ascending by id), the merged
  update list within the range of a 16-bit cell, and \<open>g\<close> a mask geometry. Then
  \<open>composite\<close> returns without an exception, and every cell of \<open>self\<close> that the mask
  does not touch is still a cell of the grid and still refers to the update it referred to
  before the call. (The index stored in the cell may change, because the call renumbers
  the cells into the merged and then compacted update list; the update it stands for does
  not.)
\<close>

theorem composite_keeps_cells_outside_mask:
  assumes "resolution self = resolution other"
    and "valid_cells self" and "ascending_updates self"
    and "card (set (updates self) \<union> set (updates other)) \<le> 65536"
    and "in_bounds (bounds self) c" and "c \<notin> set (rz (resolution self) g)"
  shows "case composite rz other (Some g) self of (e, self', other') \<Rightarrow>
           e = None \<and> in_bounds (bounds self') c \<and>
           unat (data self' c) < length (updates self') \<and>
           updates self' ! unat (data self' c) = updates self ! unat (data self c)"
proof -
  obtain e self' other' where r: "composite rz other (Some g) self = (e, self', other')"
    by (cases "composite rz other (Some g) self")
  from composite_outside_mask[OF assms r] show ?thesis by (simp add: r)
qed

text \<open>
  \<open>history_b\<close> composited into \<open>history_a\<close> under a mask that touches the cell
  \<open>(1, 0)\<close> only: the cell \<open>(0, 0)\<close> still refers to the update \<open>(3, 30)\<close>.
\<close>

theorem composite_keeps_cells_outside_mask_witness:
  "resolution history_a = resolution history_b \<and> valid_cells history_a \<and>
   ascending_updates history_a \<and>
   card (set (updates history_a) \<union> set (updates history_b)) \<le> 65536 \<and>
   in_bounds (bounds history_a) (0, 0) \<and>
   (0, 0) \<notin> set (cells_rasterizer (resolution history_a) [(1, 0)]) \<and>
   (case composite cells_rasterizer history_b (Some [(1, 0)]) history_a of
      (e, self', other') \<Rightarrow>
        e = None \<and> in_bounds (bounds self') (0, 0) \<and>
        updates self' ! unat (data self' (0, 0)) = (3, 30))"
proof -
  have h: "resolution history_a = resolution history_b" "valid_cells history_a"
    "ascending_updates history_a"
    "card (set (updates history_a) \<union> set (updates history_b)) \<le> 65536"
    "in_bounds (bounds history_a) (0, 0)"
    "(0, 0) \<notin> set (cells_rasterizer (resolution history_a) [(1, 0)])"
    by (simp_all add: history_a_def history_b_def valid_cells_def ascending_updates_def
          cells_rasterizer_def upto_rec1 card_insert_if)
  have u: "updates history_a ! unat (data history_a (0, 0)) = (3, 30)"
    by (simp add: history_a_def)
  from composite_keeps_cells_outside_mask[where rz = cells_rasterizer and g = "[(1, 0)]"
      and self = history_a and other = history_b and c = "(0, 0)", OF h]
  show ?thesis using h u by (auto split: prod.splits)
qed

subsection \<open>Claim C10\<close>

text \<open>
  C10. For stores \<open>self\<close> and \<open>other\<close> of equal resolution and any mask (or none),
  whether or not the call raises, \<open>composite\<close> leaves \<open>other\<close> with its update list
  and resolution, with every cell it had holding the value it held, and with bounds grown
  to the combined bounding rectangle (the bounds \<open>self\<close> ends with), every new cell
  holding 0.
\<close>

theorem composite_changes_other_bounds_only:
  assumes "resolution self = resolution other"
  shows "case composite rz other mask_geometry self of (e, self', other') \<Rightarrow>
           updates other' = updates other \<and> resolution other' = resolution other \<and>
           bounds other' = (if has_cells (bounds self)
                            then combined_bounds (bounds self) (bounds other)
                            else bounds other) \<and>
           bounds other' = bounds self' \<and>
           (\<forall>c. in_bounds (bounds other) c \<longrightarrow>
                  in_bounds (bounds other') c \<and> data other' c = data other c) \<and>
           (\<forall>c. \<not> in_bounds (bounds other) c \<longrightarrow> data other' c = 0)"
proof -
  let ?self1 = "fit_bounds (bounds other) self"
  let ?other1 = "fit_bounds (bounds ?self1) other"
  obtain e self' other' where r: "composite rz other mask_geometry self = (e, self', other')"
    by (cases "composite rz other mask_geometry self")
  have o: "other' = ?other1" using composite_other[OF assms, of rz mask_geometry] r by simp
  have b: "bounds ?other1 = bounds ?self1" by (rule composite_bounds_eq)
  have s: "bounds self' = bounds ?self1" using composite_self_bounds[OF assms r] .
  have b1: "bounds ?self1 = (if has_cells (bounds self)
                             then combined_bounds (bounds self) (bounds other) else bounds other)"
    by (simp add: fit_bounds_def)
  have 1: "updates other' = updates other" "resolution other' = resolution other"
    by (simp_all add: o)
  have 2: "bounds other' = (if has_cells (bounds self)
                            then combined_bounds (bounds self) (bounds other) else bounds other)"
    unfolding o by (rule trans[OF b b1])
  have 3: "bounds other' = bounds self'" unfolding o s by (rule b)
  have 4: "\<forall>c. in_bounds (bounds other) c \<longrightarrow>
                in_bounds (bounds other') c \<and> data other' c = data other c"
    unfolding o using fit_bounds_old by simp
  have 5: "\<forall>c. \<not> in_bounds (bounds other) c \<longrightarrow> data other' c = 0"
    unfolding o by simp
  show ?thesis unfolding r prod.case using 1 2 3 4 5 by blast
qed

text \<open>
  \<open>history_b\<close> composited into \<open>history_a\<close>: the bounds of \<open>history_b\<close> grow from
  the cells \<open>(1, 0)\<close>, \<open>(2, 0)\<close> to the three cells of both grids; its update list
  and its two cells are as before, and the new cell \<open>(0, 0)\<close> holds 0.
\<close>

theorem composite_changes_other_bounds_only_witness:
  "resolution history_a = resolution history_b \<and>
   (case composite cells_rasterizer history_b (Some [(1, 0)]) history_a of
      (e, self', other') \<Rightarrow>
        updates other' = [(1, 10), (2, 20)] \<and> bounds other' = (0, 0, 3, 1) \<and>
        bounds self' = (0, 0, 3, 1) \<and>
        map (data other') [(0, 0), (1, 0), (2, 0)] = [0, 1, 0])"
proof -
  have h: "resolution history_a = resolution history_b"
    by (simp add: history_a_def history_b_def)
  have i: "in_bounds (bounds history_b) (1, 0)" "in_bounds (bounds history_b) (2, 0)"
    "\<not> in_bounds (bounds history_b) (0, 0)"
    by (simp_all add: history_b_def)
  from composite_changes_other_bounds_only[OF h, of cells_rasterizer "Some [(1, 0)]"]
  show ?thesis using h i by (auto simp: history_a_def history_b_def split: prod.splits)
qed

subsection \<open>Claim C7\<close>

text \<open>
  C7. Persisting a store compacts it in place (\<open>simplify\<close>) and then writes it. Whenever
  the compacted store fits the format (fewer than 65536 updates, ids and timestamps in the
  range of 4 unsigned bytes), persisting succeeds, reloading the persisted file succeeds,
  and the reloaded store has the bounds, the resolution, the update list and the cell
  array of the store that was persisted, that is, of the store as the call left it. Bounds
  and resolution are also those the store had before the call.
\<close>

theorem persist_reload_roundtrip:
  assumes "simplify s = Inr s'"
    and "length (updates s') < 65536"
    and "\<forall>u \<in> set (updates s'). 0 \<le> fst u \<and> fst u < 2 ^ 32 \<and> 0 \<le> snd u \<and> snd u < 2 ^ 32"
  shows "\<exists>f r. write_history s = Inr (s', f) \<and> read_indexed f = Inr r \<and>
           bounds r = bounds s' \<and> resolution r = resolution s' \<and>
           updates r = updates s' \<and> cell_array r = cell_array s' \<and>
           bounds s' = bounds s \<and> resolution s' = resolution s"
proof -
  from write_metadata_ok[OF assms(2,3)] obtain md where "write_metadata s' = Inr md" ..
  then obtain f where f: "write_indexed s' = Inr f" by (simp add: write_indexed_def)
  then have w: "write_history s = Inr (s', f)" by (simp add: write_history_def assms(1))
  from read_write_indexed[OF f] obtain r where
    "read_indexed f = Inr r" "bounds r = bounds s'" "resolution r = resolution s'"
    "updates r = updates s'" "cell_array r = cell_array s'" by blast
  with w simplify_fields(1,2)[OF assms(1)] show ?thesis by blast
qed

text \<open>
  The store \<open>history_unref\<close> is persisted as its compaction: the reloaded store has the
  two updates and the cell array of the compacted store.
\<close>

theorem persist_reload_roundtrip_witness:
  "\<exists>s' f r. simplify history_unref = Inr s' \<and> length (updates s') < 65536 \<and>
      list_all (\<lambda>u. 0 \<le> fst u \<and> fst u < 2 ^ 32 \<and> 0 \<le> snd u \<and> snd u < 2 ^ 32) (updates s') \<and>
      write_history history_unref = Inr (s', f) \<and> read_indexed f = Inr r \<and>
      bounds r = (0, 0, 2, 1) \<and> resolution r = 1 \<and>
      updates r = [(1, 10), (3, 30)] \<and> cell_array r = [1, 1]"
proof -
  have ne: "updates history_unref \<noteq> []" by (simp add: history_unref_def)
  then obtain s' where s': "simplify history_unref = Inr s'" using simplify_Inr by blast
  have ev: "case simplify history_unref of Inl e \<Rightarrow> False
            | Inr s \<Rightarrow> updates s = [(1, 10), (3, 30)] \<and> map (data s) (cells_of (bounds s)) = [1, 1]"
    by (simp add: simplify_def history_unref_def enumerate_eq_zip array_any_def array_eq_def
          array_assign_def upt_rec upto_rec1)
  have v: "updates s' = [(1, 10), (3, 30)]" "cell_array s' = [1, 1]"
    using ev by (simp_all add: s' cell_array_def)
  have b: "bounds history_unref = (0, 0, 2, 1)" "resolution history_unref = 1"
    by (simp_all add: history_unref_def)
  have h: "length (updates s') < 65536"
    "\<forall>u \<in> set (updates s'). 0 \<le> fst u \<and> fst u < 2 ^ 32 \<and> 0 \<le> snd u \<and> snd u < 2 ^ 32"
    by (simp_all add: v)
  from persist_reload_roundtrip[OF s' h] obtain f r where
    "write_history history_unref = Inr (s', f)" "read_indexed f = Inr r"
    "bounds r = bounds history_unref" "resolution r = resolution history_unref"
    "updates r = updates s'" "cell_array r = cell_array s'" by auto
  with s' h v b show ?thesis by (auto simp: list_all_iff)
qed

subsection \<open>Claim C1\<close>

text \<open>
  C1, as stated, fails when the two hole polygons do not overlap: both are non-empty, the
  running intersection becomes empty at the second hole-contributing layer, the loop
  breaks there, and the layer below both gets no cropper at all. Three primary levels with
  altitude areas, rendered for level 3; the holes of the levels 3, 2 and 1 are \<open>{1}\<close>,
  \<open>{2}\<close> and \<open>{4}\<close>, and the croppers of the levels 3 and 2 are none and \<open>{1}\<close>,
  while level 1 has no entry in \<open>level_crop_to\<close>:
\<close>

theorem crop_of_disjoint_holes_counterexample:
  "(case first_pass_env params_disjoint example_levels of
      Inl e \<Rightarrow> None
    | Inr env \<Rightarrow>
        (case choose_crop (single_level_geoms env)
                (sublevels_of example_levels (example_level 3)) of
           Inl e \<Rightarrow> None
         | Inr level_crop_to \<Rightarrow>
             Some (map (\<lambda>k. map_option holes (single_level_geoms env k)) [3, 2, 1],
                   map level_crop_to [3, 2, 1])))
   = Some ([Some (Some {1}), Some (Some {2}), Some (Some {4})],
           [Some (Cropper None), Some (Cropper (Some {1})), None])"
  by code_simp

text \<open>
  C1, amended. Let every sublevel of a level have its geometries (the first loop of
  \<open>rebuild\<close> gives every level an entry), and let the sublevels, from the top down, be
  layers without holes \<open>A\<close>, a layer \<open>T\<close> with the non-empty hole polygon \<open>H1\<close>,
  layers without holes \<open>M\<close>, a layer \<open>S\<close> with the hole polygon \<open>H2\<close>, layers
  without holes \<open>N\<close>, a layer \<open>B\<close>, and any further layers \<open>R\<close>. Then the crop loop
  raises no exception, the topmost hole-contributing layer \<open>T\<close> is unrestricted, and the
  second hole-contributing layer \<open>S\<close>, which lies between \<open>T\<close> and \<open>B\<close>, is cropped
  to \<open>H1\<close> alone. When \<open>H1\<close> and \<open>H2\<close> overlap, the layer \<open>B\<close> below both is
  cropped to the intersection of \<open>H1\<close> and \<open>H2\<close>; when they are disjoint, the walk
  stops at \<open>S\<close> and \<open>B\<close> is assigned no cropper at all. The layers without holes above
  \<open>S\<close> are unrestricted, those between \<open>S\<close> and \<open>B\<close> are treated like \<open>B\<close>.
\<close>

theorem crop_of_two_hole_layers:
  assumes "rev sublevels = A @ T # M @ S # N @ B # R"
    and "\<forall>a \<in> set sublevels. slg (pk a) \<noteq> None"
    and "\<forall>a \<in> set (A @ M @ N). \<forall>g. slg (pk a) = Some g \<longrightarrow> holes g = None"
    and "slg (pk T) = Some geoms_T" and "holes geoms_T = Some H1"
    and "slg (pk S) = Some geoms_S" and "holes geoms_S = Some H2"
    and "H1 \<noteq> {}"
    and "distinct (map pk sublevels)"
  shows "\<exists>level_crop_to.
           choose_crop slg sublevels = Inr level_crop_to \<and>
           level_crop_to (pk T) = Some (Cropper None) \<and>
           level_crop_to (pk S) = Some (Cropper (Some H1)) \<and>
           level_crop_to (pk B) =
             (if H1 \<inter> H2 = {} then None else Some (Cropper (Some (H1 \<inter> H2)))) \<and>
           (\<forall>a \<in> set (A @ M). level_crop_to (pk a) = Some (Cropper None)) \<and>
           (\<forall>a \<in> set N. level_crop_to (pk a) =
              (if H1 \<inter> H2 = {} then None else Some (Cropper (Some (H1 \<inter> H2)))))"
proof -
  have s: "set sublevels = set (A @ T # M @ S # N @ B # R)"
    using assms(1) by (metis set_rev)
  have "distinct (map pk (rev sublevels))" using assms(9) by (simp add: rev_map[symmetric])
  then have d: "distinct (map pk (A @ T # M @ S # N @ B # R))" by (simp only: assms(1))
  have nh: "\<forall>a \<in> set (A @ M @ N). \<exists>g. slg (pk a) = Some g \<and> holes g = None"
  proof
    fix a assume a: "a \<in> set (A @ M @ N)"
    then have "a \<in> set sublevels" unfolding s by auto
    with assms(2) obtain g where "slg (pk a) = Some g" by auto
    with assms(3) a show "\<exists>g. slg (pk a) = Some g \<and> holes g = None" by blast
  qed
  have tot: "\<forall>a \<in> set (B # R). slg (pk a) \<noteq> None"
    using assms(2) unfolding s by auto
  from crop_walk_two_holes[OF nh assms(4-8) tot d] show ?thesis
    unfolding choose_crop_def assms(1) by blast
qed

text \<open>
  Three primary levels with altitude areas, rendered for level 3; the holes of the levels
  3 and 2 are \<open>{1, 2}\<close> and \<open>{2, 3}\<close>: level 1 is cropped to \<open>{2}\<close>.
\<close>

theorem crop_of_two_hole_layers_witness:
  "\<exists>env level_crop_to.
     first_pass_env params_overlap example_levels = Inr env \<and>
     rev (sublevels_of example_levels (example_level 3))
       = [] @ example_level 3 # [] @ example_level 2 # [] @ example_level 1 # [] \<and>
     map (\<lambda>k. map_option holes (single_level_geoms env k)) [3, 2, 1]
       = [Some (Some {1, 2}), Some (Some {2, 3}), Some (Some {4})] \<and>
     ({1, 2} :: nat set) \<noteq> {} \<and> ({1, 2} :: nat set) \<inter> {2, 3} \<noteq> {} \<and>
     distinct (map pk (sublevels_of example_levels (example_level 3))) \<and>
     choose_crop (single_level_geoms env) (sublevels_of example_levels (example_level 3))
       = Inr level_crop_to \<and>
     level_crop_to 3 = Some (Cropper None) \<and>
     level_crop_to 2 = Some (Cropper (Some {1, 2})) \<and>
     level_crop_to 1 = Some (Cropper (Some {2}))"
proof -
  let ?subs = "sublevels_of example_levels (example_level 3)"
  have ev: "(case first_pass_env params_overlap example_levels of
               Inl e \<Rightarrow> None
             | Inr env \<Rightarrow> Some (map (\<lambda>k. map_option holes (single_level_geoms env k)) [3, 2, 1]))
            = Some [Some (Some {1, 2}), Some (Some {2, 3}), Some (Some {4})]"
    by code_simp
  then obtain env where env: "first_pass_env params_overlap example_levels = Inr env"
    and hs: "map (\<lambda>k. map_option holes (single_level_geoms env k)) [3, 2, 1]
               = [Some (Some {1, 2}), Some (Some {2, 3}), Some (Some {4})]"
    by (auto split: sum.splits)
  from hs obtain g3 g2 g1 where
    g3: "single_level_geoms env 3 = Some g3" "holes g3 = Some {1, 2}"
    and g2: "single_level_geoms env 2 = Some g2" "holes g2 = Some {2, 3}"
    and g1: "single_level_geoms env 1 = Some g1"
    by auto
  have subs: "?subs = [example_level 1, example_level 2, example_level 3]"
    by (simp add: sublevels_of_def example_levels_def example_level_def)
  have p: "pk (example_level 3) = 3" "pk (example_level 2) = 2" "pk (example_level 1) = 1"
    by (simp_all add: example_level_def)
  have h1: "rev ?subs = [] @ example_level 3 # [] @ example_level 2 # [] @ example_level 1 # []"
    by (simp add: subs)
  have h2: "\<forall>a \<in> set ?subs. single_level_geoms env (pk a) \<noteq> None"
    by (simp add: subs p g3 g2 g1)
  have h3: "\<forall>a \<in> set ([] @ [] @ []). \<forall>g. single_level_geoms env (pk a) = Some g \<longrightarrow> holes g = None"
    by simp
  have h4: "single_level_geoms env (pk (example_level 3)) = Some g3"
    and h6: "single_level_geoms env (pk (example_level 2)) = Some g2"
    by (simp_all add: p g3 g2)
  have h8: "({1, 2} :: nat set) \<noteq> {}" by simp
  have h9: "distinct (map pk ?subs)" by (simp add: subs p)
  have i: "({1, 2} :: nat set) \<inter> {2, 3} = {2}" by auto
  from crop_of_two_hole_layers[OF h1 h2 h3 h4 g3(2) h6 g2(2) h8 h9]
  obtain level_crop_to where
    c: "choose_crop (single_level_geoms env) ?subs = Inr level_crop_to"
    "level_crop_to 3 = Some (Cropper None)"
    "level_crop_to 2 = Some (Cropper (Some {1, 2}))"
    "level_crop_to 1 = Some (Cropper (Some {2}))"
    unfolding p i by auto
  have ne: "({1, 2} :: nat set) \<inter> {2, 3} \<noteq> {}" by (simp add: i)
  show ?thesis
    by (rule exI[of _ env], rule exI[of _ level_crop_to], intro conjI)
       (fact env, fact h1, fact hs, fact h8, fact ne, fact h9, fact c(1), fact c(2), fact c(3),
        fact c(4))
qed

subsection \<open>Claim C6\<close>

text \<open>
  C6, as stated, fails: the test on the cropped walls and altitude areas is followed by
  \<open>continue\<close>, not by \<open>break\<close>, and the loop runs from the lowest sublevel up. Three
  primary levels with the same hole, every one with an altitude area; \<open>rebuild\<close> raises
  no exception. When level 3 is rendered, level 2 has the hole as its cropper and
  contributes nothing (it has no walls, and its altitude area lies outside the hole), and
  yet level 1 below it and level 3 above it are both in the render data of level 3.
\<close>

theorem empty_sublevel_counterexample:
  "(case first_pass_env params_middle_empty example_levels of
      Inl e \<Rightarrow> None
    | Inr env \<Rightarrow>
        (case choose_crop (single_level_geoms env)
                (sublevels_of example_levels (example_level 3)) of
           Inl e \<Rightarrow> None
         | Inr level_crop_to \<Rightarrow>
             Some (level_crop_to 2,
                   map_option (contributes_nothing (Cropper (Some {1})))
                     (single_level_geoms env 2))))
   = Some (Some (Cropper (Some {1})), Some True) \<and>
   (case rebuild params_middle_empty example_levels of
      (raised, saved) \<Rightarrow>
        (raised, map (\<lambda>(k, render_data, map_history). (k, map pk (levels render_data))) saved))
   = (None, [(1, [1]), (2, [1, 2]), (3, [1, 3])])"
  by code_simp

text \<open>
  C6, amended. A sublevel whose cropped walls are empty and whose cropped altitude-area
  list is empty is left out of the render data itself, and the walk goes on with the next
  sublevel. When \<open>rebuild\<close> raises no exception and every sublevel of a primary level has
  been assigned a cropper, the render data saved for the level holds, in the order of the
  walk (lowest sublevel first), exactly the cropped geometries of the sublevels whose
  cropped walls or cropped altitude areas are not empty.
\<close>

theorem empty_sublevel_is_skipped:
  assumes "first_pass_env P lvls = Inr env"
    and "rebuild P lvls = (None, saved)"
    and "lvl \<in> set lvls" and "on_top_of_id lvl = None"
    and "choose_crop (single_level_geoms env) (sublevels_of lvls lvl) = Inr level_crop_to"
    and "\<forall>sublevel \<in> set (sublevels_of lvls lvl). level_crop_to (pk sublevel) \<noteq> None"
  shows "\<exists>render_data map_history.
           (pk lvl, render_data, map_history) \<in> set saved \<and>
           levels render_data =
             map (\<lambda>sublevel. crop_geoms env lvl sublevel
                     (the (level_crop_to (pk sublevel)))
                     (the (single_level_geoms env (pk sublevel))))
               (filter (\<lambda>sublevel. \<not> contributes_nothing
                          (the (level_crop_to (pk sublevel)))
                          (the (single_level_geoms env (pk sublevel))))
                  (sublevels_of lvls lvl))"
proof -
  from assms(1,2) have "render_levels env lvls lvls [] = (None, saved)"
    by (simp add: rebuild_def)
  from render_levels_level[OF this assms(3,4)] obtain render_data map_history where
    l: "render_level env lvls lvl = Inr (render_data, map_history)"
    and m: "(pk lvl, render_data, map_history) \<in> set saved"
    by blast
  from l assms(5) obtain rd mh where
    w: "render_walk env lvl level_crop_to (sublevels_of lvls lvl)
          (\<lparr>levels = [], access_restriction_affected = []\<rparr>, open_level_base env (pk lvl))
        = Inr (rd, mh)"
    and r: "levels render_data = levels rd"
    by (auto simp: render_level_def Let_def split: sum.splits)
  from render_walk_levels[OF w assms(6)] r m show ?thesis by auto
qed

text \<open>
  The three levels of the counterexample: every sublevel of level 3 has a cropper, the
  render data saved for level 3 holds the levels 1 and 3, and the filter drops level 2.
\<close>

theorem empty_sublevel_is_skipped_witness:
  "\<exists>env saved level_crop_to.
     first_pass_env params_middle_empty example_levels = Inr env \<and>
     rebuild params_middle_empty example_levels = (None, saved) \<and>
     example_level 3 \<in> set example_levels \<and> on_top_of_id (example_level 3) = None \<and>
     choose_crop (single_level_geoms env) (sublevels_of example_levels (example_level 3))
       = Inr level_crop_to \<and>
     map (\<lambda>sublevel. level_crop_to (pk sublevel))
         (sublevels_of example_levels (example_level 3))
       = [Some (Cropper (Some {1})), Some (Cropper (Some {1})), Some (Cropper None)] \<and>
     (\<exists>render_data map_history.
        (3, render_data, map_history) \<in> set saved \<and>
        levels render_data =
          map (\<lambda>sublevel. crop_geoms env (example_level 3) sublevel
                  (the (level_crop_to (pk sublevel)))
                  (the (single_level_geoms env (pk sublevel))))
            (filter (\<lambda>sublevel. \<not> contributes_nothing
                       (the (level_crop_to (pk sublevel)))
                       (the (single_level_geoms env (pk sublevel))))
               (sublevels_of example_levels (example_level 3))) \<and>
        map pk (levels render_data) = [1, 3])"
proof -
  let ?subs = "sublevels_of example_levels (example_level 3)"
  have "(case first_pass_env params_middle_empty example_levels of
           Inl e \<Rightarrow> None
         | Inr env \<Rightarrow>
             (case choose_crop (single_level_geoms env) ?subs of
                Inl e \<Rightarrow> None
              | Inr level_crop_to \<Rightarrow>
                  Some (map (\<lambda>sublevel. level_crop_to (pk sublevel)) ?subs)))
        = Some [Some (Cropper (Some {1})), Some (Cropper (Some {1})), Some (Cropper None)]"
    by code_simp
  then obtain env level_crop_to where
    env: "first_pass_env params_middle_empty example_levels = Inr env"
    and lct: "choose_crop (single_level_geoms env) ?subs = Inr level_crop_to"
    and cs: "map (\<lambda>sublevel. level_crop_to (pk sublevel)) ?subs
               = [Some (Cropper (Some {1})), Some (Cropper (Some {1})), Some (Cropper None)]"
    by (auto split: sum.splits)
  have "(case rebuild params_middle_empty example_levels of
           (raised, saved) \<Rightarrow>
             (raised, map (\<lambda>(k, render_data, map_history). (k, map pk (levels render_data)))
                        saved))
        = (None, [(1, [1]), (2, [1, 2]), (3, [1, 3])])"
    by code_simp
  then obtain saved where
    rb: "rebuild params_middle_empty example_levels = (None, saved)"
    and sv: "map (\<lambda>(k, render_data, map_history). (k, map pk (levels render_data))) saved
               = [(1, [1]), (2, [1, 2]), (3, [1, 3])]"
    by (auto split: prod.splits)
  have h3: "example_level 3 \<in> set example_levels"
    and h4: "on_top_of_id (example_level 3) = None"
    by (simp_all add: example_levels_def example_level_def)
  have h6: "\<forall>sublevel \<in> set ?subs. level_crop_to (pk sublevel) \<noteq> None"
  proof
    fix sublevel assume "sublevel \<in> set ?subs"
    then have "level_crop_to (pk sublevel) \<in> set (map (\<lambda>sublevel. level_crop_to (pk sublevel)) ?subs)"
      by auto
    then show "level_crop_to (pk sublevel) \<noteq> None" unfolding cs by auto
  qed
  have p: "pk (example_level 3) = 3" by (simp add: example_level_def)
  from empty_sublevel_is_skipped[OF env rb h3 h4 lct h6] obtain render_data map_history where
    m: "(3, render_data, map_history) \<in> set saved"
    and l: "levels render_data =
          map (\<lambda>sublevel. crop_geoms env (example_level 3) sublevel
                  (the (level_crop_to (pk sublevel)))
                  (the (single_level_geoms env (pk sublevel))))
            (filter (\<lambda>sublevel. \<not> contributes_nothing
                       (the (level_crop_to (pk sublevel)))
                       (the (single_level_geoms env (pk sublevel))))
               ?subs)"
    unfolding p by blast
  from m have "(3, map pk (levels render_data))
                 \<in> set (map (\<lambda>(k, render_data, map_history). (k, map pk (levels render_data))) saved)"
    by force
  then have k: "map pk (levels render_data) = [1, 3]" unfolding sv by simp
  have inner: "\<exists>render_data map_history.
        (3, render_data, map_history) \<in> set saved \<and>
        levels render_data =
          map (\<lambda>sublevel. crop_geoms env (example_level 3) sublevel
                  (the (level_crop_to (pk sublevel)))
                  (the (single_level_geoms env (pk sublevel))))
            (filter (\<lambda>sublevel. \<not> contributes_nothing
                       (the (level_crop_to (pk sublevel)))
                       (the (single_level_geoms env (pk sublevel))))
               ?subs) \<and>
        map pk (levels render_data) = [1, 3]"
    by (rule exI[of _ render_data], rule exI[of _ map_history], intro conjI)
       (fact m, fact l, fact k)
  show ?thesis
    by (rule exI[of _ env], rule exI[of _ saved], rule exI[of _ level_crop_to], intro conjI)
       (fact env, fact rb, fact h3, fact h4, fact lct, fact cs, fact inner)
qed

subsection \<open>Claim C5\<close>

text \<open>
  C5, as stated, fails for the fallback, which does not look at the query: after the
  insertion of one box under the id 1, a query box far away from it finds nothing in the
  tree-backed index, as the contract says, and the fallback still returns an entry (the
  stored geometry).
\<close>

theorem fallback_counterexample:
  "(case run_calls fallback_call [Insert (1 :: int) (Simple (0 :: int, 0, 1, 1))] fallback_empty of
      Inl e \<Rightarrow> []
    | Inr idx \<Rightarrow> fallback_intersection idx (Simple (5, 5, 6, 6))) = [Simple (0, 0, 1, 1)] \<and>
   (case run_calls rtree_call [Insert (1 :: int) (Simple (0 :: int, 0, 1, 1))] rtree_empty of
      Inl e \<Rightarrow> {}
    | Inr idx \<Rightarrow> rtree_intersection idx (Simple (5, 5, 6, 6))) = {} \<and>
   contract_intersection (registered [Insert (1 :: int) (Simple (0 :: int, 0, 1, 1))])
     (Simple (5, 5, 6, 6)) = {}"
  by (simp add: fallback_empty_def fallback_insert_def fallback_intersection_def
        rtree_empty_def contract_intersection_def registered_def)

text \<open>
  C5, amended. For every sequence of \<open>insert\<close> and \<open>delete\<close> calls that both
  implementations get through without an exception: the tree-backed index answers a query
  with exactly the ids that have a registered (inserted and not deleted) part box that
  intersects the box of a part of the query; the fallback does not filter by the query, it
  returns one entry for every id it stores, whatever the query is; and every id the
  tree-backed index returns is among the ids the fallback stores.
\<close>

theorem index_contract:
  assumes "run_calls rtree_call calls rtree_empty = Inr rt"
    and "run_calls fallback_call calls fallback_empty = Inr fb"
  shows "rtree_intersection rt query = contract_intersection (registered calls) query \<and>
         rtree_intersection rt query \<subseteq> fst ` set (objects fb) \<and>
         distinct (map fst (objects fb)) \<and>
         length (fallback_intersection fb query) = length (objects fb) \<and>
         fallback_intersection fb query = fallback_intersection fb query'"
proof -
  have t: "tracked (rtree_empty :: ('a, 'b) rtree_index)"
    by (simp add: tracked_def rtree_empty_def boxes_of_def)
  from rtree_run_registered[OF t assms(1)]
  have e: "rtree_entries rt = registered calls" by (simp add: registered_def rtree_empty_def)
  have 1: "rtree_intersection rt query = contract_intersection (registered calls) query"
    by (simp add: rtree_intersection_contract e)
  have "fst ` set (fold registered_call calls []) \<subseteq> fst ` set (objects fb)"
    by (rule fallback_run_keys[OF assms(2)]) simp
  then have 2: "rtree_intersection rt query \<subseteq> fst ` set (objects fb)"
    unfolding 1 contract_intersection_def registered_def by force
  have 3: "distinct (map fst (objects fb))"
    by (rule fallback_run_distinct[OF assms(2)]) (simp add: fallback_empty_def)
  show ?thesis using 1 2 3 by (simp add: fallback_intersection_def)
qed

text \<open>
  The calls of \<open>example_calls\<close> and a query box that touches the first part of the
  geometry of id 1 and the box of id 2: the tree-backed index returns the ids 1 and 2, the
  fallback two entries.
\<close>

theorem index_contract_witness:
  "\<exists>rt fb. run_calls rtree_call example_calls rtree_empty = Inr rt \<and>
           run_calls fallback_call example_calls fallback_empty = Inr fb \<and>
           rtree_intersection rt (Simple (1, 1, 2, 2)) = {1, 2} \<and>
           contract_intersection (registered example_calls) (Simple (1, 1, 2, 2)) = {1, 2} \<and>
           map fst (objects fb) = [1, 2] \<and>
           length (fallback_intersection fb (Simple (1, 1, 2, 2))) = 2"
proof -
  define rt :: "(int, int) rtree_index" where
    "rt = \<lparr>rtree_entries = [(1, (0, 0, 1, 1)), (1, (4, 4, 5, 5)), (2, (2, 2, 3, 3))],
            rtree_bounds = [(1, [(0, 0, 1, 1), (4, 4, 5, 5)]), (2, [(2, 2, 3, 3)])]\<rparr>"
  define fb :: "(int, int) fallback_index" where
    "fb = \<lparr>objects = [(1, Multi [Simple (0, 0, 1, 1), Simple (4, 4, 5, 5)]),
                       (2, Simple (2, 2, 3, 3))]\<rparr>"
  have r: "run_calls rtree_call example_calls rtree_empty = Inr rt"
    by (simp add: example_calls_def rtree_empty_def rtree_delete_def rt_def)
  have f: "run_calls fallback_call example_calls fallback_empty = Inr fb"
    by (simp add: example_calls_def fallback_empty_def fallback_insert_def fallback_delete_def
          fb_def)
  have q: "rtree_intersection rt (Simple (1, 1, 2, 2)) = {1, 2}"
    by (auto simp: rt_def)
  from index_contract[OF r f, of "Simple (1, 1, 2, 2)" "Simple (1, 1, 2, 2)"] q
  have "contract_intersection (registered example_calls) (Simple (1, 1, 2, 2)) = {1, 2}"
    "length (fallback_intersection fb (Simple (1, 1, 2, 2))) = length (objects fb)"
    by simp_all
  with r f q show ?thesis by (auto simp: fb_def)
qed

subsection \<open>Claim C4\<close>

text \<open>
  C4, as stated, fails in its second half: the cache key is the path of the request
  followed by the ETag, and a tile has more than one path (\<open>path_regex\<close> accepts
  \<^verbatim>\<open>/01/0/0/0.png\<close>, and \<open>int\<close> reads the level 1 from it). The example server gets
  the tile of level 1, zoom 0, x 0, y 0 under the path \<^verbatim>\<open>/1/0/0/0.png\<close> with the token
  \<open>a\<close> and under the path \<^verbatim>\<open>/01/0/0/0.png\<close> with the token \<open>b\<close>; the permissions
  \<open>{7, 8}\<close> and \<open>{7, 9}\<close> differ outside the restrictions \<open>{7}\<close> of the tile only.
  Both requests get the same tile keys, with the ETag \<open>b7s\<close>, and different cache keys:
  after the first request has been served, its tile is in the cache, and the entry that
  the second request looks up is still missing.
\<close>

theorem different_paths_counterexample:
  "match_path example_utils (path_info (example_request ''a'')) = Some (1, 0, 0, 0) \<and>
   match_path example_utils (path_info (example_request_padded ''b'')) = Some (1, 0, 0, 0) \<and>
   decoded_permissions example_utils ''s'' (example_request ''a'') = {7, 8} \<and>
   decoded_permissions example_utils ''s'' (example_request_padded ''b'') = {7, 9} \<and>
   request_keys example_utils example_shared example_server (example_request ''a'')
     = (Inr (Inr \<lparr>tile_level = 1, tile_zoom = 0, tile_x = 0, tile_y = 0,
                  tile_restrictions = {7}, access_cache_key = ''7'', tile_etag = ''b7s''\<rparr>),
        example_server) \<and>
   request_keys example_utils example_shared example_server (example_request_padded ''b'')
     = (Inr (Inr \<lparr>tile_level = 1, tile_zoom = 0, tile_x = 0, tile_y = 0,
                  tile_restrictions = {7}, access_cache_key = ''7'', tile_etag = ''b7s''\<rparr>),
        example_server) \<and>
   cache_key (example_request ''a'')
     \<lparr>tile_level = 1, tile_zoom = 0, tile_x = 0, tile_y = 0,
      tile_restrictions = {7}, access_cache_key = ''7'', tile_etag = ''b7s''\<rparr>
     = ''/1/0/0/0.png_b7s'' \<and>
   cache_key (example_request_padded ''b'')
     \<lparr>tile_level = 1, tile_zoom = 0, tile_x = 0, tile_y = 0,
      tile_restrictions = {7}, access_cache_key = ''7'', tile_etag = ''b7s''\<rparr>
     = ''/01/0/0/0.png_b7s'' \<and>
   (case call example_utils example_upstream example_shared example_server
           (example_request ''a'') of
      (result, self', shared') \<Rightarrow>
        (result, tiles shared' ''/1/0/0/0.png_b7s'', tiles shared' ''/01/0/0/0.png_b7s''))
   = (Inr (DeliverTile ''b7s'' [1]), Some [1], None)"
proof -
  let ?k = "\<lparr>tile_level = 1, tile_zoom = 0, tile_x = 0, tile_y = 0,
             tile_restrictions = {7}, access_cache_key = ''7'', tile_etag = ''b7s''\<rparr>"
  have m: "match_path example_utils (path_info (example_request ''a'')) = Some (1, 0, 0, 0)"
    "match_path example_utils (path_info (example_request_padded ''b'')) = Some (1, 0, 0, 0)"
    by (simp_all add: example_utils_def example_request_def example_request_padded_def)
  have d: "decoded_permissions example_utils ''s'' (example_request ''a'') = {7, 8}"
    "decoded_permissions example_utils ''s'' (example_request_padded ''b'') = {7, 9}"
    by (simp_all add: decoded_permissions_def access_token_def example_utils_def
          example_request_def example_request_padded_def)
  have k1: "request_keys example_utils example_shared example_server (example_request ''a'')
              = (Inr (Inr ?k), example_server)"
    by (simp add: example_request_keys)
  have k2: "request_keys example_utils example_shared example_server
              (example_request_padded ''b'') = (Inr (Inr ?k), example_server)"
    by (simp add: example_request_padded_keys)
  have c: "cache_key (example_request ''a'') ?k = ''/1/0/0/0.png_b7s''"
    "cache_key (example_request_padded ''b'') ?k = ''/01/0/0/0.png_b7s''"
    by (simp_all add: cache_key_def example_request_def example_request_padded_def)
  have s: "(case call example_utils example_upstream example_shared example_server
                  (example_request ''a'') of
             (result, self', shared') \<Rightarrow>
               (result, tiles shared' ''/1/0/0/0.png_b7s'', tiles shared' ''/01/0/0/0.png_b7s''))
           = (Inr (DeliverTile ''b7s'' [1]), Some [1], None)"
    unfolding call_def k1
    by (simp add: serve_tile_def Let_def cache_key_def example_upstream_def example_request_def
          example_shared_def)
  from m d k1 k2 c s show ?thesis by (intro conjI)
qed

text \<open>
  C4, amended. Take two requests that a worker in a given state resolves to tile keys, for
  the same level, zoom, x and y, whose decoded permission sets agree on the restrictions
  present in the cell range of the tile (they differ only in permissions outside that
  set). If both carry a token or neither does, or if the access key of the empty
  permission set is the key \<open>0\<close> that a request without token gets, then the two content
  identifiers (ETags) are equal, and so are the access keys sent upstream; when the two
  requests have the same path, their cache keys are equal, so both look up the same entry
  of the tile cache, and with the same conditional-request header the server answers both
  in the same way.
\<close>

theorem irrelevant_permissions_same_etag:
  assumes "match_path U (path_info e1) = match_path U (path_info e2)"
    and "request_keys U sh self e1 = (Inr (Inr k1), s1)"
    and "request_keys U sh self e2 = (Inr (Inr k2), s2)"
    and "decoded_permissions U (tile_secret self) e1 \<inter> tile_restrictions k1
       = decoded_permissions U (tile_secret self) e2 \<inter> tile_restrictions k1"
    and "(access_token U e1 = None \<longleftrightarrow> access_token U e2 = None)
         \<or> build_access_cache_key U {} = ''0''"
  shows "tile_etag k1 = tile_etag k2 \<and> access_cache_key k1 = access_cache_key k2 \<and>
         (path_info e1 = path_info e2 \<longrightarrow>
            cache_key e1 k1 = cache_key e2 k2 \<and>
            tiles sh (cache_key e1 k1) = tiles sh (cache_key e2 k2) \<and>
            (http_if_none_match e1 = http_if_none_match e2 \<longrightarrow>
               call U upstream sh self e1 = call U upstream sh self e2))"
proof -
  from request_keys_equal[OF assms] have k: "k1 = k2" "s1 = s2" by simp_all
  have "call U upstream sh self e1 = call U upstream sh self e2"
    if p: "path_info e1 = path_info e2" and h: "http_if_none_match e1 = http_if_none_match e2"
  proof -
    have ck: "cache_key e1 k2 = cache_key e2 k2" by (simp add: cache_key_def p)
    have "serve_tile upstream sh e1 k2 = serve_tile upstream sh e2 k2"
      unfolding serve_tile_def ck h ..
    then show ?thesis using assms(2,3) by (simp add: call_def k)
  qed
  with k show ?thesis by (simp add: cache_key_def)
qed

text \<open>
  The example server: the tokens \<open>a\<close> and \<open>b\<close> grant \<open>{7, 8}\<close> and \<open>{7, 9}\<close>, the
  tile has the restriction 7 only, and both requests get the content identifier
  \<open>b7s\<close>.
\<close>

theorem irrelevant_permissions_same_etag_witness:
  "path_info (example_request ''a'') = path_info (example_request ''b'') \<and>
   decoded_permissions example_utils ''s'' (example_request ''a'') = {7, 8} \<and>
   decoded_permissions example_utils ''s'' (example_request ''b'') = {7, 9} \<and>
   (\<exists>k1 k2 s1 s2.
      request_keys example_utils example_shared example_server (example_request ''a'')
        = (Inr (Inr k1), s1) \<and>
      request_keys example_utils example_shared example_server (example_request ''b'')
        = (Inr (Inr k2), s2) \<and>
      tile_restrictions k1 = {7} \<and>
      tile_etag k1 = ''b7s'' \<and> tile_etag k2 = ''b7s'' \<and>
      cache_key (example_request ''a'') k1 = cache_key (example_request ''b'') k2)"
proof -
  let ?k = "\<lparr>tile_level = 1, tile_zoom = 0, tile_x = 0, tile_y = 0, tile_restrictions = {7},
             access_cache_key = ''7'', tile_etag = ''b7s''\<rparr>"
  have p: "path_info (example_request ''a'') = path_info (example_request ''b'')"
    by (simp add: example_request_def)
  have m: "match_path example_utils (path_info (example_request ''a''))
         = match_path example_utils (path_info (example_request ''b''))"
    by (simp add: example_request_def)
  have k1: "request_keys example_utils example_shared example_server (example_request ''a'')
              = (Inr (Inr ?k), example_server)"
    by (simp add: example_request_keys)
  have k2: "request_keys example_utils example_shared example_server (example_request ''b'')
              = (Inr (Inr ?k), example_server)"
    by (simp add: example_request_keys)
  have d: "decoded_permissions example_utils ''s'' (example_request ''a'') = {7, 8}"
    "decoded_permissions example_utils ''s'' (example_request ''b'') = {7, 9}"
    by (simp_all add: decoded_permissions_def access_token_def example_utils_def
          example_request_def)
  have s: "tile_secret example_server = ''s''" by (simp add: example_server_def)
  have i: "decoded_permissions example_utils (tile_secret example_server) (example_request ''a'')
             \<inter> tile_restrictions ?k
         = decoded_permissions example_utils (tile_secret example_server) (example_request ''b'')
             \<inter> tile_restrictions ?k"
    by (simp add: s d)
  have t: "(access_token example_utils (example_request ''a'') = None
            \<longleftrightarrow> access_token example_utils (example_request ''b'') = None)
           \<or> build_access_cache_key example_utils {} = ''0''"
    by (simp add: example_utils_def)
  from irrelevant_permissions_same_etag[OF m k1 k2 i t] p
  have "cache_key (example_request ''a'') ?k = cache_key (example_request ''b'') ?k" by simp
  with p d k1 k2 show ?thesis by auto
qed

subsection \<open>Claim C9\<close>

text \<open>
  C9, as stated, fails for a failure of the saving: by then the worker has already replaced
  its package by the new one and taken the new file name, and the handler only clears the
  content identifier. A worker with the package 1 in force, a refresh that downloads and
  parses the package 2 and cannot write the file: the call returns \<open>False\<close>, the worker
  holds the package 2, and when the shared file name is missing the package 2 is the one
  served.
\<close>

theorem failed_save_counterexample:
  "fst (load_cache_package world_store_fails (server_with_package, shared_with_package)) = False \<and>
   cache_package server_with_package = Some 1 \<and>
   cache_package (fst (snd (load_cache_package world_store_fails
                              (server_with_package, shared_with_package)))) = Some 2 \<and>
   cache_package_filename (fst (snd (load_cache_package world_store_fails
                              (server_with_package, shared_with_package)))) = Some ''2.pickle'' \<and>
   cache_package_etag (fst (snd (load_cache_package world_store_fails
                              (server_with_package, shared_with_package)))) = None \<and>
   fst (snd (get_cache_package (shared_with_package\<lparr>package_pointer := None\<rparr>)
               (fst (snd (load_cache_package world_store_fails
                            (server_with_package, shared_with_package)))))) = Some 2"
  by (simp add: load_cache_package_def world_store_fails_def server_with_package_def
        shared_with_package_def get_cache_package_def)

text \<open>
  C9, amended. \<open>load_cache_package\<close> always returns (it is a total function to a truth
  value; every exception is caught). For every attempt that fails before a package has
  been downloaded and parsed (network error, bad secret, unexpected status, parse failure)
  the state of the worker and the shared state are what they were: the previously active
  package remains the one in force. For an attempt that fails while the new package is
  saved (the file or the shared cache cannot be written), the worker holds the new package
  and the new file name and has forgotten the content identifier, and the shared file name
  still is the previous one.
\<close>

theorem failed_refresh_keeps_package:
  assumes "load_cache_package w (self, sh) = (False, self', sh')"
  shows "(downloaded_package w = None \<longrightarrow> self' = self \<and> sh' = sh) \<and>
         (\<forall>package. downloaded_package w = Some package \<longrightarrow>
            self' = self\<lparr>cache_package := Some package, cache_package_etag := None,
                           cache_package_filename := Some (now_filename w)\<rparr> \<and>
            package_pointer sh' = package_pointer sh \<and> tiles sh' = tiles sh)"
proof (cases "downloaded_package w")
  case None
  from load_cache_package_no_download[OF None, of self sh] assms show ?thesis
    by (auto simp: None)
next
  case (Some package)
  from load_cache_package_downloaded[OF Some, of self sh] assms show ?thesis
    by (auto simp: Some split: if_splits)
qed

text \<open>
  A refresh whose download cannot be parsed leaves the worker and the shared state as they
  were.
\<close>

theorem failed_refresh_keeps_package_witness:
  "load_cache_package world_parse_fails (server_with_package, shared_with_package)
     = (False, server_with_package, shared_with_package) \<and>
   downloaded_package world_parse_fails = None \<and>
   downloaded_package world_store_fails = Some 2 \<and>
   fst (get_cache_package shared_with_package server_with_package) = None \<and>
   fst (snd (get_cache_package shared_with_package server_with_package)) = Some 1"
proof -
  have l: "load_cache_package world_parse_fails (server_with_package, shared_with_package)
             = (False, server_with_package, shared_with_package)"
    by (simp add: load_cache_package_def world_parse_fails_def)
  have d: "downloaded_package world_parse_fails = None"
    "downloaded_package world_store_fails = Some 2"
    by (simp_all add: downloaded_package_def world_parse_fails_def world_store_fails_def)
  have g: "fst (get_cache_package shared_with_package server_with_package) = None"
    "fst (snd (get_cache_package shared_with_package server_with_package)) = Some 1"
    by (simp_all add: get_cache_package_def shared_with_package_def server_with_package_def)
  from failed_refresh_keeps_package[OF l] l d g show ?thesis by simp
qed

end
